theory Spec2Isabelle
  imports Main "HOL-Library.Sublist"
begin

section \<open>Data model (src/types/index.ts)\<close>

text \<open>
  Strings are lists of 8-bit characters: the model covers JavaScript strings whose
  UTF-16 code units all lie below U+0100.  Optional fields (\<open>field?: T\<close>) are options;
  \<open>undefined\<close> is \<open>None\<close>.  The \<open>timestamp: Date\<close> field of a job is left out: no
  function modelled here reads it.  The fields \<open>id\<close> and \<open>text\<close> of \<open>IssueJob\<close> are
  written \<open>id_job\<close> and \<open>text_job\<close>, the fields of \<open>PRReferenceInfo\<close> carry the
  prefix \<open>ref_\<close>.
\<close>

record ThreadContext =
  branchName :: string
  prUrl :: "string option"
  prNumber :: "nat option"
  originalIssueText :: string
  filesChanged :: "string list"

record PRReferenceInfo =
  ref_owner :: string
  ref_repo :: string
  ref_prNumber :: nat

record ImageAttachment =
  url :: string
  filename :: string
  mimetype :: string

record IssueJob =
  id_job :: string
  text_job :: string
  channel :: string
  threadTs :: string
  userId :: string
  retryCount :: "nat option"
  isFollowUp :: "bool option"
  prReferences :: "PRReferenceInfo list option"
  images :: "ImageAttachment list option"
  threadContext :: "ThreadContext option"

text \<open>JavaScript truthiness of an optional string: \<open>undefined\<close> and \<open>""\<close> are falsy.\<close>

fun truthy :: "string option \<Rightarrow> bool" where
  "truthy None = False"
| "truthy (Some s) = (s \<noteq> [])"

text \<open>\<open>String.prototype.trim\<close>: white space and line terminators below U+0100.\<close>

definition isWhiteSpace :: "char \<Rightarrow> bool" where
  "isWhiteSpace c = (c \<in> set [CHR 0x09, CHR 0x0A, CHR 0x0B, CHR 0x0C, CHR 0x0D, CHR 0x20, CHR 0xA0])"

definition trim :: "string \<Rightarrow> string" where
  "trim s = rev (dropWhile isWhiteSpace (rev (dropWhile isWhiteSpace s)))"

text \<open>\<open>String.prototype.includes\<close> and \<open>startsWith\<close>.\<close>

fun startsWith :: "string \<Rightarrow> string \<Rightarrow> bool" where
  "startsWith s [] = True"
| "startsWith [] (p # ps) = False"
| "startsWith (c # cs) (p # ps) = (if c = p then startsWith cs ps else False)"

fun includes_str :: "string \<Rightarrow> string \<Rightarrow> bool" where
  "includes_str [] p = (p = [])"
| "includes_str (c # cs) p = (if startsWith (c # cs) p then True else includes_str cs p)"

section \<open>Thread tracking (src/utils/thread-tracking.ts)\<close>

text \<open>
  The module's four process-wide collections, passed explicitly: the sets
  \<open>processedMessages\<close>, \<open>activeThreads\<close>, \<open>completedThreads\<close> and the map
  \<open>threadContextMap\<close>.
\<close>

record tracking =
  processedMessages :: "string set"
  activeThreads :: "string set"
  completedThreads :: "string set"
  threadContextMap :: "string \<rightharpoonup> ThreadContext"

definition initial_tracking :: tracking where
  "initial_tracking =
     \<lparr>processedMessages = {}, activeThreads = {}, completedThreads = {},
      threadContextMap = Map.empty\<rparr>"

definition markThreadCompleted :: "string \<Rightarrow> ThreadContext option \<Rightarrow> tracking \<Rightarrow> tracking" where
  "markThreadCompleted ts context s =
     (let s1 = s\<lparr>activeThreads := activeThreads s - {ts}\<rparr>;
          s2 = s1\<lparr>completedThreads := insert ts (completedThreads s1)\<rparr>
      in case context of
           Some c \<Rightarrow> s2\<lparr>threadContextMap := (threadContextMap s2)(ts \<mapsto> c)\<rparr>
         | None \<Rightarrow> s2)"

definition getThreadContext :: "string \<Rightarrow> tracking \<Rightarrow> ThreadContext option" where
  "getThreadContext ts s = threadContextMap s ts"

definition clearActiveThread :: "string \<Rightarrow> tracking \<Rightarrow> tracking" where
  "clearActiveThread ts s = s\<lparr>activeThreads := activeThreads s - {ts}\<rparr>"

section \<open>Inbound events (the handler of \<open>POST /api/slack-events\<close>)\<close>

text \<open>
  The \<open>event\<close> object of \<open>SlackEventSchema\<close>, as the handler destructures it after the
  schema has parsed the request (\<open>text\<close> defaults to the empty string).  Of a file
  the handler reads \<open>mimetype\<close>, \<open>url_private\<close> and \<open>name\<close>.
\<close>

record SlackFile =
  file_name :: string
  file_mimetype :: string
  url_private :: string

record SlackMessageEvent =
  ev_type :: string
  ev_subtype :: "string option"
  ev_channel :: string
  ev_user :: "string option"
  ev_bot_id :: "string option"
  ev_text :: string
  ev_ts :: string
  ev_thread_ts :: "string option"
  ev_files :: "SlackFile list option"

text \<open>
  The handler from the destructuring of the event to the acknowledgement.  Its
  parameters are \<open>config.slack.channelId\<close> and the result of \<open>extractPRReferences\<close>
  on the trimmed text (with the default owner and repository already supplied).  The
  result is the tracking state after the handler and the job passed to
  \<open>jobQueue.enqueue\<close>, \<open>None\<close> when the handler returns without enqueuing.
\<close>

definition imageAttachments :: "SlackFile list option \<Rightarrow> ImageAttachment list" where
  "imageAttachments files =
     (case files of
        None \<Rightarrow> []
      | Some fs \<Rightarrow>
          map (\<lambda>f. \<lparr>url = url_private f, filename = file_name f, mimetype = file_mimetype f\<rparr>)
              (filter (\<lambda>f. startsWith (file_mimetype f) ''image/'') fs))"

definition isThreadReply :: "SlackMessageEvent \<Rightarrow> bool" where
  "isThreadReply ev = (truthy (ev_thread_ts ev) \<and> ev_thread_ts ev \<noteq> Some (ev_ts ev))"

definition threadKey :: "SlackMessageEvent \<Rightarrow> string" where
  "threadKey ev = (if truthy (ev_thread_ts ev) then the (ev_thread_ts ev) else ev_ts ev)"

definition slackEvents ::
  "string \<Rightarrow> (string \<Rightarrow> PRReferenceInfo list) \<Rightarrow> SlackMessageEvent \<Rightarrow> tracking
     \<Rightarrow> tracking \<times> IssueJob option" where
  "slackEvents channelId extractPRReferences ev s =
     (if ev_type ev \<noteq> ''message'' then (s, None)
      else if truthy (ev_subtype ev) \<and> ev_subtype ev \<noteq> Some ''file_share'' then (s, None)
      else if truthy (ev_bot_id ev) then (s, None)
      else if \<not> truthy (ev_user ev) \<or> ev_user ev = Some ''USLACKBOT'' then (s, None)
      else if ev_ts ev \<in> processedMessages s then (s, None)
      else if isThreadReply ev \<and> threadKey ev \<in> activeThreads s then (s, None)
      else if isThreadReply ev \<and> threadKey ev \<notin> completedThreads s then (s, None)
      else if \<not> isThreadReply ev \<and> threadKey ev \<in> activeThreads s then (s, None)
      else if ev_channel ev \<noteq> channelId then (s, None)
      else if length (trim (ev_text ev)) < 10 then (s, None)
      else if \<not> isThreadReply ev \<and> includes_str (trim (ev_text ev)) ''<@U'' then (s, None)
      else
        let trimmedText = trim (ev_text ev);
            refs = extractPRReferences trimmedText;
            imgs = imageAttachments (ev_files ev);
            existingThreadContext =
              (if isThreadReply ev then getThreadContext (threadKey ev) s else None);
            job = \<lparr>id_job = ev_ts ev, text_job = trimmedText, channel = ev_channel ev,
                   threadTs = threadKey ev, userId = the (ev_user ev), retryCount = Some 0,
                   isFollowUp = Some (isThreadReply ev),
                   prReferences = (if refs \<noteq> [] then Some refs else None),
                   images = (if imgs \<noteq> [] then Some imgs else None),
                   threadContext = existingThreadContext\<rparr>
        in (s\<lparr>processedMessages := insert (ev_ts ev) (processedMessages s),
              activeThreads := insert (threadTs job) (activeThreads s)\<rparr>, Some job))"

section \<open>Job results (src/types/index.ts)\<close>

datatype JobStatus = pending | processing | completed | failed

record FixResult =
  fr_success :: bool
  fr_analysis :: string
  fr_solution :: string
  fr_filesChanged :: "string list"
  fr_fixes :: "string list"

record DeploymentResult =
  dep_success :: bool
  dep_url :: "string option"
  dep_status :: "string option"
  dep_error :: "string option"

record JobResult =
  res_jobId :: string
  res_status :: JobStatus
  res_branchName :: "string option"
  res_prUrl :: "string option"
  res_previewUrl :: "string option"
  res_result :: "FixResult option"
  res_deployment :: "DeploymentResult option"
  res_error :: "string option"

text \<open>
  What awaiting a promise yields: the value it resolves to, or a rejection, of which
  the error's message is kept.
\<close>

datatype 'a outcome = Returns 'a | Throws string

section \<open>The job queue (class \<open>AsyncJobQueue\<close>)\<close>

text \<open>
  A handler is \<open>(job: IssueJob) => Promise<JobResult>\<close>; it may read and change
  process-wide state, which is passed explicitly as \<open>'st\<close>.
\<close>

type_synonym 'st JobHandler = "IssueJob \<Rightarrow> 'st \<Rightarrow> JobResult outcome \<times> 'st"

definition maxRetries :: nat where
  "maxRetries = 2"

text \<open>\<open>job.retryCount || 0\<close>\<close>

definition retryCountOr0 :: "IssueJob \<Rightarrow> nat" where
  "retryCountOr0 job = (case retryCount job of None \<Rightarrow> 0 | Some n \<Rightarrow> n)"

text \<open>
  The \<open>try\<close> block of the loop body tells a result with status \<open>completed\<close> from
  every other result; a thrown exception takes the \<open>catch\<close> block, which retries
  under the same condition.
\<close>

fun jobCompleted :: "JobResult outcome \<Rightarrow> bool" where
  "jobCompleted (Returns r) = (res_status r = completed)"
| "jobCompleted (Throws m) = False"

text \<open>
  The \<open>while (this.queue.length > 0)\<close> loop of \<open>process\<close>, on the queue as it stands
  when the loop starts (jobs that arrive while a handler is awaited are not modelled).
  The third argument is the process-wide state, the fourth collects, in order, every
  job the handler was invoked on.  The \<open>sleep\<close> between jobs has no effect on the
  result.
\<close>

function processLoop ::
  "'st JobHandler \<Rightarrow> IssueJob list \<Rightarrow> 'st \<Rightarrow> IssueJob list \<Rightarrow> 'st \<times> IssueJob list" where
  "processLoop h [] st attempts = (st, attempts)"
| "processLoop h (job # queue) st attempts =
     (if jobCompleted (fst (h job st))
      then processLoop h queue (snd (h job st)) (attempts @ [job])
      else if retryCountOr0 job < maxRetries
      then processLoop h (queue @ [job\<lparr>retryCount := Some (retryCountOr0 job + 1)\<rparr>])
             (snd (h job st)) (attempts @ [job])
      else processLoop h queue (snd (h job st)) (attempts @ [job]))"
  by pat_completeness auto
termination
  by (relation "measure (\<lambda>(h, q, st, a). sum_list (map (\<lambda>j. Suc (maxRetries - retryCountOr0 j)) q))")
     (auto simp add: retryCountOr0_def)

record 'st AsyncJobQueue =
  queue :: "IssueJob list"
  processing :: bool
  handler :: "'st JobHandler option"

definition setHandler :: "'st JobHandler \<Rightarrow> 'st AsyncJobQueue \<Rightarrow> 'st AsyncJobQueue" where
  "setHandler h q = q\<lparr>handler := Some h\<rparr>"

text \<open>
  \<open>process\<close>: nothing happens while another run is in progress or no handler is set;
  otherwise the loop runs until the queue is empty.  The result is the queue object,
  the state and the handler invocations.
\<close>

definition process ::
  "'st AsyncJobQueue \<Rightarrow> 'st \<Rightarrow> 'st AsyncJobQueue \<times> 'st \<times> IssueJob list" where
  "process q st =
     (case handler q of
        None \<Rightarrow> (q, st, [])
      | Some h \<Rightarrow>
          if processing q then (q, st, [])
          else (q\<lparr>queue := [], processing := False\<rparr>, processLoop h (queue q) st []))"

text \<open>\<open>enqueue\<close>: append the job and start processing unless a run is in progress.\<close>

definition enqueue ::
  "IssueJob \<Rightarrow> 'st AsyncJobQueue \<Rightarrow> 'st \<Rightarrow> 'st AsyncJobQueue \<times> 'st \<times> IssueJob list" where
  "enqueue job q st =
     (let q1 = q\<lparr>queue := queue q @ [job]\<rparr>
      in if \<not> processing q1 then process q1 st else (q1, st, []))"

text \<open>The invocations of the handler on jobs with a given id.\<close>

definition attemptsOf :: "string \<Rightarrow> IssueJob list \<Rightarrow> IssueJob list" where
  "attemptsOf i attempts = filter (\<lambda>k. id_job k = i) attempts"

text \<open>
  The retry counters of the attempts still to come of the job with id \<open>i\<close> when the loop
  stands at queue \<open>q\<close>, if every attempt on it fails.
\<close>

definition remaining :: "string \<Rightarrow> IssueJob list \<Rightarrow> nat list" where
  "remaining i q =
     (case filter (\<lambda>k. id_job k = i) q of
        [] \<Rightarrow> []
      | j # js \<Rightarrow> [retryCountOr0 j ..< Suc (max (retryCountOr0 j) maxRetries)])"

section \<open>Regular expressions, as \<open>RegExp.prototype.test\<close> decides them\<close>

text \<open>
  The pattern tables of the safety module use literals, character classes, \<open>\s\<close>,
  \<open>\w\<close>, \<open>.\<close>, the assertions \<open>^\<close>, \<open>$\<close>, \<open>\b\<close>, grouping, alternation, the
  quantifiers \<open>*\<close>, \<open>+\<close>, \<open>?\<close> and the flag \<open>i\<close>.  None has the flags \<open>g\<close>, \<open>m\<close>,
  \<open>s\<close> or \<open>u\<close>, a back-reference or a look-around, so \<open>test\<close> answers whether some
  substring of the subject is in the pattern's language, with the assertions read at
  the substring's position in the subject.
\<close>

datatype re =
    Str string
  | OneOf "char list"
  | NoneOf "char list"
  | Range char char
  | Space
  | WordChar
  | AnyChar
  | Bol
  | Eol
  | WordBoundary
  | Seq re re
  | Alt re re
  | Star re
  | Plus re
  | Opt re

text \<open>
  A position in the subject: the character before it (\<open>None\<close> at the start) and the
  rest of the subject from it.
\<close>

type_synonym pos = "char option \<times> string"

definition inRange :: "char \<Rightarrow> char \<Rightarrow> char \<Rightarrow> bool" where
  "inRange lo hi c = (of_char lo \<le> (of_char c :: nat) \<and> (of_char c :: nat) \<le> of_char hi)"

definition isWordChar :: "char \<Rightarrow> bool" where
  "isWordChar c =
     (inRange CHR ''a'' CHR ''z'' c \<or> inRange CHR ''A'' CHR ''Z'' c \<or>
      inRange CHR ''0'' CHR ''9'' c \<or> c = CHR ''_'')"

definition isLineTerminator :: "char \<Rightarrow> bool" where
  "isLineTerminator c = (c = CHR 0x0A \<or> c = CHR 0x0D)"

text \<open>
  Canonicalisation under the flag \<open>i\<close>.  Every letter in the tables' patterns is
  ASCII, and no character from U+0080 on canonicalises to an ASCII one, so only the
  ASCII letters need folding.
\<close>

definition canon :: "bool \<Rightarrow> char \<Rightarrow> char" where
  "canon ci c = (if ci \<and> inRange CHR ''a'' CHR ''z'' c then char_of (of_char c - (32::nat)) else c)"

fun stepc :: "(char \<Rightarrow> bool) \<Rightarrow> pos \<Rightarrow> pos list" where
  "stepc P (pv, []) = []"
| "stepc P (pv, c # cs) = (if P c then [(Some c, cs)] else [])"

fun lit :: "bool \<Rightarrow> string \<Rightarrow> pos \<Rightarrow> pos list" where
  "lit ci [] p = [p]"
| "lit ci (c # cs) (pv, []) = []"
| "lit ci (c # cs) (pv, d # ds) =
     (if canon ci c = canon ci d then lit ci cs (Some d, ds) else [])"

fun wordBefore :: "pos \<Rightarrow> bool" where
  "wordBefore (None, r) = False"
| "wordBefore (Some c, r) = isWordChar c"

fun wordAfter :: "pos \<Rightarrow> bool" where
  "wordAfter (pv, []) = False"
| "wordAfter (pv, c # cs) = isWordChar c"

text \<open>
  The positions reachable from \<open>front\<close> by repeating \<open>f\<close>, added to \<open>acc\<close>.  Each round
  that goes on has found a position not seen before, so as many rounds as the rest of
  the subject has characters find them all.
\<close>

fun closure :: "(pos \<Rightarrow> pos list) \<Rightarrow> nat \<Rightarrow> pos list \<Rightarrow> pos list \<Rightarrow> pos list" where
  "closure f 0 front acc = acc"
| "closure f (Suc n) front acc =
     (case filter (\<lambda>q. q \<notin> set acc) (remdups (concat (map f front))) of
        [] \<Rightarrow> acc
      | q # qs \<Rightarrow> closure f n (q # qs) (acc @ q # qs))"

text \<open>\<open>ends ci r p\<close>: the positions at which a match of \<open>r\<close> that starts at \<open>p\<close> can end.\<close>

fun ends :: "bool \<Rightarrow> re \<Rightarrow> pos \<Rightarrow> pos list" where
  "ends ci (Str s) p = lit ci s p"
| "ends ci (OneOf cs) p = stepc (\<lambda>d. list_ex (\<lambda>c. canon ci c = canon ci d) cs) p"
| "ends ci (NoneOf cs) p = stepc (\<lambda>d. \<not> list_ex (\<lambda>c. canon ci c = canon ci d) cs) p"
| "ends ci (Range lo hi) p =
     stepc (\<lambda>d. inRange lo hi d \<or> (ci \<and> inRange (canon ci lo) (canon ci hi) (canon ci d))) p"
| "ends ci Space p = stepc isWhiteSpace p"
| "ends ci WordChar p = stepc isWordChar p"
| "ends ci AnyChar p = stepc (\<lambda>d. \<not> isLineTerminator d) p"
| "ends ci Bol p = (if fst p = None then [p] else [])"
| "ends ci Eol p = (if snd p = [] then [p] else [])"
| "ends ci WordBoundary p = (if wordBefore p \<noteq> wordAfter p then [p] else [])"
| "ends ci (Seq a b) p = remdups (concat (map (ends ci b) (ends ci a p)))"
| "ends ci (Alt a b) p = remdups (ends ci a p @ ends ci b p)"
| "ends ci (Star a) p = closure (\<lambda>q. ends ci a q) (length (snd p)) [p] [p]"
| "ends ci (Plus a) p =
     remdups (concat (map (\<lambda>q. closure (\<lambda>q. ends ci a q) (length (snd q)) [q] [q])
                          (ends ci a p)))"
| "ends ci (Opt a) p = remdups (p # ends ci a p)"

fun search :: "bool \<Rightarrow> re \<Rightarrow> pos \<Rightarrow> bool" where
  "search ci r (pv, []) = (ends ci r (pv, []) \<noteq> [])"
| "search ci r (pv, c # cs) =
     (if ends ci r (pv, c # cs) \<noteq> [] then True else search ci r (Some c, cs))"

text \<open>A \<open>RegExp\<close> object: the flag \<open>i\<close> and the pattern.\<close>

type_synonym RegExp = "bool \<times> re"

definition regexTest :: "RegExp \<Rightarrow> string \<Rightarrow> bool" where
  "regexTest rx s = search (fst rx) (snd rx) (None, s)"

fun seqs :: "re list \<Rightarrow> re" where
  "seqs [] = Str []"
| "seqs [r] = r"
| "seqs (r # rs) = Seq r (seqs rs)"

fun alts :: "string list \<Rightarrow> re" where
  "alts [] = OneOf []"
| "alts [s] = Str s"
| "alts (s # ss) = Alt (Str s) (alts ss)"

text \<open>The positions of a subject from a position on.\<close>

fun sufs :: "pos \<Rightarrow> pos list" where
  "sufs (pv, []) = [(pv, [])]"
| "sufs (pv, c # cs) = (pv, c # cs) # sufs (Some c, cs)"

text \<open>
  \<open>matches ci r p q\<close>: the pattern \<open>r\<close> matches the subject from position \<open>p\<close> to
  position \<open>q\<close>, as the pattern semantics of ECMAScript has it for the constructs
  above.
\<close>

inductive matches :: "bool \<Rightarrow> re \<Rightarrow> pos \<Rightarrow> pos \<Rightarrow> bool" for ci :: bool where
  m_StrNil: "matches ci (Str []) p p"
| m_StrCons: "canon ci c = canon ci d \<Longrightarrow> matches ci (Str cs) (Some d, ds) q \<Longrightarrow>
     matches ci (Str (c # cs)) (pv, d # ds) q"
| m_OneOf: "list_ex (\<lambda>c. canon ci c = canon ci d) cs \<Longrightarrow>
     matches ci (OneOf cs) (pv, d # ds) (Some d, ds)"
| m_NoneOf: "\<not> list_ex (\<lambda>c. canon ci c = canon ci d) cs \<Longrightarrow>
     matches ci (NoneOf cs) (pv, d # ds) (Some d, ds)"
| m_Range: "inRange lo hi d \<or> (ci \<and> inRange (canon ci lo) (canon ci hi) (canon ci d)) \<Longrightarrow>
     matches ci (Range lo hi) (pv, d # ds) (Some d, ds)"
| m_Space: "isWhiteSpace d \<Longrightarrow> matches ci Space (pv, d # ds) (Some d, ds)"
| m_WordChar: "isWordChar d \<Longrightarrow> matches ci WordChar (pv, d # ds) (Some d, ds)"
| m_AnyChar: "\<not> isLineTerminator d \<Longrightarrow> matches ci AnyChar (pv, d # ds) (Some d, ds)"
| m_Bol: "matches ci Bol (None, s) (None, s)"
| m_Eol: "matches ci Eol (pv, []) (pv, [])"
| m_WordBoundary: "wordBefore p \<noteq> wordAfter p \<Longrightarrow> matches ci WordBoundary p p"
| m_Seq: "matches ci a p q \<Longrightarrow> matches ci b q r \<Longrightarrow> matches ci (Seq a b) p r"
| m_AltL: "matches ci a p q \<Longrightarrow> matches ci (Alt a b) p q"
| m_AltR: "matches ci b p q \<Longrightarrow> matches ci (Alt a b) p q"
| m_StarNil: "matches ci (Star a) p p"
| m_StarCons: "matches ci a p q \<Longrightarrow> matches ci (Star a) q r \<Longrightarrow> matches ci (Star a) p r"
| m_Plus: "matches ci a p q \<Longrightarrow> matches ci (Star a) q r \<Longrightarrow> matches ci (Plus a) p r"
| m_OptNil: "matches ci (Opt a) p p"
| m_OptOne: "matches ci a p q \<Longrightarrow> matches ci (Opt a) p q"

code_pred (modes: i \<Rightarrow> i \<Rightarrow> i \<Rightarrow> o \<Rightarrow> bool) matches .

section \<open>Safety filters (src/services/claude/safety.ts)\<close>

definition BLOCKED_BASH_PATTERNS :: "(RegExp \<times> string) list" where
  "BLOCKED_BASH_PATTERNS =
   [((False, seqs [Str ''rm'', Plus Space,
                   Star (seqs [Str ''-'', Plus (OneOf ''rf''), Plus Space]), OneOf ''/~'']),
     ''Recursive delete from root or home''),
    ((False, seqs [Str ''rm'', Plus Space, Str ''-r'', Opt (Str ''f''), Plus Space, Str ''*'']),
     ''Delete all files''),
    ((False, seqs [Str ''>'', Star Space, Str ''/dev/sd'', Range CHR ''a'' CHR ''z'']),
     ''Direct disk write''),
    ((False, Str ''mkfs.''), ''Filesystem format''),
    ((False, seqs [Str ''dd'', Plus Space, Star AnyChar, Str ''of=/dev/'']),
     ''Direct disk write''),
    ((True, seqs [Str ''DROP'', Plus Space, alts [''DATABASE'', ''TABLE'', ''SCHEMA'']]),
     ''Database destruction''),
    ((True, seqs [Str ''DELETE'', Plus Space, Str ''FROM'', Plus Space, Plus WordChar,
                  Star Space, Alt (Str '';'') Eol]),
     ''Unfiltered DELETE (no WHERE clause)''),
    ((True, seqs [Str ''TRUNCATE'', Plus Space, Str ''TABLE'']), ''Table truncation''),
    ((False, seqs [Str ''sudo'', Plus Space]), ''Privilege escalation''),
    ((False, seqs [Str ''chmod'', Plus Space, Str ''777'']), ''Insecure permissions''),
    ((False, seqs [Str ''chown'', Plus Space, Str ''root'']), ''Change ownership to root''),
    ((False, seqs [Str ''git'', Plus Space, Str ''push'', Plus Space, Star AnyChar,
                   Str ''--force'']),
     ''Force push''),
    ((False, seqs [Str ''git'', Plus Space, Str ''push'', Plus Space, Str ''-f'', Space]),
     ''Force push''),
    ((False, seqs [Str ''git'', Plus Space, Str ''reset'', Plus Space, Str ''--hard'',
                   Plus Space, Str ''origin'']),
     ''Hard reset to remote''),
    ((False, seqs [Str ''git'', Plus Space, Str ''clean'', Plus Space, Str ''-fd'']),
     ''Remove untracked files''),
    ((False, seqs [Str ''export'', Plus Space, Star WordChar,
                   alts [''_KEY'', ''_SECRET'', ''_TOKEN'', ''_PASSWORD''], Str ''='']),
     ''Setting secrets in shell''),
    ((False, seqs [Str ''echo'', Plus Space, Star AnyChar, Str ''>'', Star Space, Str ''.env'']),
     ''Overwriting .env file''),
    ((False, seqs [Str ''kill'', Plus Space, Str ''-9'', Plus Space, Str ''1'', WordBoundary]),
     ''Kill init process''),
    ((False, Str ''shutdown''), ''System shutdown''),
    ((False, Str ''reboot''), ''System reboot''),
    ((False, seqs [Str ''systemctl'', Plus Space, alts [''stop'', ''disable'']]),
     ''Stopping system services''),
    ((False, seqs [Str ''npm'', Plus Space, Str ''publish'']), ''Publishing packages''),
    ((False, seqs [Str ''npm'', Plus Space, Str ''unpublish'']), ''Unpublishing packages''),
    ((False, seqs [Str ''npm'', Plus Space, Str ''deprecate'']), ''Deprecating packages''),
    ((False, seqs [Str ''curl'', Star AnyChar, Str ''|'', Star Space, Opt (Str ''ba''), Str ''sh'']),
     ''Piping remote script to shell''),
    ((False, seqs [Str ''wget'', Star AnyChar, Str ''|'', Star Space, Opt (Str ''ba''), Str ''sh'']),
     ''Piping remote script to shell''),
    ((False, alts [''xmrig'', ''minerd'', ''cryptonight'']), ''Potential crypto mining'')]"

definition WARN_BASH_PATTERNS :: "(RegExp \<times> string) list" where
  "WARN_BASH_PATTERNS =
   [((False, seqs [Str ''curl'', Plus Space]), ''Network request with curl''),
    ((False, seqs [Str ''wget'', Plus Space]), ''Network request with wget''),
    ((False, seqs [Str ''npm'', Plus Space, Str ''install'', Plus Space, Str ''-g'']),
     ''Global npm install''),
    ((False, seqs [Str ''docker'', Plus Space]), ''Docker command''),
    ((False, seqs [Str ''git'', Plus Space, Str ''push'']), ''Git push operation'')]"

definition ALLOWED_BASH_PATTERNS :: "RegExp list" where
  "ALLOWED_BASH_PATTERNS =
   [(False, seqs [Bol, Str ''npm'', Plus Space,
                  alts [''run'', ''test'', ''start'', ''build'', ''ci'', ''install''], WordBoundary]),
    (False, seqs [Bol, Str ''yarn'', Plus Space,
                  alts [''test'', ''build'', ''start'', ''install''], WordBoundary]),
    (False, seqs [Bol, Str ''pnpm'', Plus Space,
                  alts [''test'', ''build'', ''start'', ''install''], WordBoundary]),
    (False, seqs [Bol, Str ''bun'', Plus Space,
                  alts [''run'', ''test'', ''build'', ''install'', ''dev'', ''lint''], WordBoundary]),
    (False, seqs [Bol, Str ''node'', Plus Space]),
    (False, seqs [Bol, Str ''npx'', Plus Space,
                  alts [''tsc'', ''eslint'', ''prettier'', ''vitest'', ''jest''], WordBoundary]),
    (False, seqs [Bol, Str ''bundle'', Plus Space,
                  alts [''exec'', ''install'', ''update''], WordBoundary]),
    (False, seqs [Bol, Str ''bin/cop'', WordBoundary]),
    (False, seqs [Bol, Str ''bin/rails'', WordBoundary]),
    (False, seqs [Bol, Str ''rake'', Plus Space]),
    (False, seqs [Bol, Str ''git'', Plus Space,
                  alts [''status'', ''log'', ''diff'', ''branch'', ''show''], WordBoundary]),
    (False, seqs [Bol, Str ''ls'', WordBoundary]),
    (False, seqs [Bol, Str ''cat'', WordBoundary]),
    (False, seqs [Bol, Str ''head'', WordBoundary]),
    (False, seqs [Bol, Str ''tail'', WordBoundary]),
    (False, seqs [Bol, Str ''grep'', WordBoundary]),
    (False, seqs [Bol, Str ''find'', Plus Space, Str ''.'']),
    (False, seqs [Bol, Str ''pwd'', Eol]),
    (False, seqs [Bol, Str ''echo'', Space]),
    (False, seqs [Bol, Str ''mkdir'', Plus Space, Str ''-'', Opt (Str ''p''), Plus Space, Str ''.'']),
    (False, seqs [Bol, Str ''cp'', Plus Space, NoneOf ''/'']),
    (False, seqs [Bol, Str ''mv'', Plus Space, NoneOf ''/''])]"

definition PROTECTED_FILE_PATTERNS :: "(RegExp \<times> string) list" where
  "PROTECTED_FILE_PATTERNS =
   [((False, seqs [Str ''.env'', Alt Eol (Str ''.'')]), ''Environment file''),
    ((False, seqs [Str ''.env.local'', Eol]), ''Local environment file''),
    ((False, seqs [Str ''.env.production'', Eol]), ''Production environment file''),
    ((True, seqs [Str ''credentials.'', alts [''json'', ''yaml'', ''yml''], Eol]),
     ''Credentials file''),
    ((True, seqs [Str ''secret'', Opt (Str ''s''), Str ''.'', alts [''json'', ''yaml'', ''yml''], Eol]),
     ''Secrets file''),
    ((False, seqs [Str ''.pem'', Eol]), ''Private key''),
    ((False, seqs [Str ''.key'', Eol]), ''Private key''),
    ((False, Str ''id_rsa''), ''SSH private key''),
    ((False, seqs [Str ''config/application.yml'', Eol]), ''Rails application secrets (Figaro)''),
    ((False, seqs [Str ''config/credentials.yml.enc'', Eol]), ''Rails encrypted credentials''),
    ((False, seqs [Str ''config/master.key'', Eol]), ''Rails master key''),
    ((False, seqs [Str ''config/database.yml'', Eol]), ''Database configuration''),
    ((False, Str ''.git/''), ''Git internal file''),
    ((True, seqs [Str ''.github/workflows/'', Star AnyChar, Str ''secrets'']),
     ''GitHub secrets reference''),
    ((False, seqs [Str ''package-lock.json'', Eol]), ''Package lock (auto-generated)''),
    ((False, seqs [Str ''yarn.lock'', Eol]), ''Yarn lock (auto-generated)''),
    ((False, seqs [Str ''pnpm-lock.yaml'', Eol]), ''PNPM lock (auto-generated)''),
    ((False, seqs [Str ''bun.lockb'', Eol]), ''Bun lock (auto-generated)''),
    ((False, seqs [Str ''Gemfile.lock'', Eol]), ''Gemfile lock (auto-generated)'')]"

definition SENSITIVE_FILE_PATTERNS :: "(RegExp \<times> string) list" where
  "SENSITIVE_FILE_PATTERNS =
   [((False, seqs [Str ''package.json'', Eol]), ''Package manifest - dependencies may change''),
    ((False, seqs [Str ''tsconfig.json'', Eol]), ''TypeScript config''),
    ((False, Str ''.github/workflows/''), ''GitHub Actions workflow''),
    ((False, seqs [Str ''vercel.json'', Eol]), ''Vercel configuration''),
    ((False, seqs [Str ''Dockerfile'', Eol]), ''Docker configuration''),
    ((False, seqs [Str ''docker-compose.y'', Opt (Str ''a''), Str ''ml'', Eol]),
     ''Docker Compose configuration''),
    ((False, seqs [Str ''Gemfile'', Eol]), ''Ruby dependencies (Gemfile)''),
    ((False, seqs [Str ''config/routes.rb'', Eol]), ''Rails routes''),
    ((False, Str ''config/initializers/''), ''Rails initializer''),
    ((False, Str ''db/migrate/''), ''Database migration''),
    ((False, seqs [Str ''db/schema.rb'', Eol]), ''Database schema''),
    ((False, seqs [Str ''next.config.'', alts [''js'', ''ts'', ''mjs''], Eol]),
     ''Next.js configuration''),
    ((False, seqs [Str ''tailwind.config.'', alts [''js'', ''ts''], Eol]),
     ''Tailwind CSS configuration'')]"

record SafetyCheckResult =
  allowed :: bool
  reason :: "string option"
  warning :: "string option"

text \<open>
  The two shapes of loop in the check functions: over a list of patterns, returning at
  the first that matches; and over a list of patterns with a text, returning that text.
\<close>

fun anyMatches :: "RegExp list \<Rightarrow> string \<Rightarrow> bool" where
  "anyMatches [] s = False"
| "anyMatches (rx # rxs) s = (if regexTest rx s then True else anyMatches rxs s)"

fun firstMatch :: "(RegExp \<times> string) list \<Rightarrow> string \<Rightarrow> string option" where
  "firstMatch [] s = None"
| "firstMatch ((rx, t) # rxs) s = (if regexTest rx s then Some t else firstMatch rxs s)"

definition checkBashCommand :: "string \<Rightarrow> SafetyCheckResult" where
  "checkBashCommand command =
     (let normalizedCommand = trim command
      in if anyMatches ALLOWED_BASH_PATTERNS normalizedCommand
         then \<lparr>allowed = True, reason = None, warning = None\<rparr>
         else case firstMatch BLOCKED_BASH_PATTERNS normalizedCommand of
                Some r \<Rightarrow> \<lparr>allowed = False, reason = Some (''Blocked: '' @ r), warning = None\<rparr>
              | None \<Rightarrow>
                  (case firstMatch WARN_BASH_PATTERNS normalizedCommand of
                     Some w \<Rightarrow> \<lparr>allowed = True, reason = None, warning = Some w\<rparr>
                   | None \<Rightarrow> \<lparr>allowed = True, reason = None, warning = None\<rparr>))"

subsection \<open>Node's \<open>path\<close> module (POSIX)\<close>

fun splitOn :: "char \<Rightarrow> string \<Rightarrow> string list" where
  "splitOn sep [] = [[]]"
| "splitOn sep (c # cs) =
     (if c = sep then [] # splitOn sep cs
      else case splitOn sep cs of [] \<Rightarrow> [[c]] | s # ss \<Rightarrow> (c # s) # ss)"

fun joinWith :: "char \<Rightarrow> string list \<Rightarrow> string" where
  "joinWith sep [] = []"
| "joinWith sep [s] = s"
| "joinWith sep (s # ss) = s @ sep # joinWith sep ss"

text \<open>
  \<open>normalizeString\<close>, segment by segment: empty segments and \<open>.\<close> are skipped; \<open>..\<close>
  removes the last segment kept so far unless there is none or it is \<open>..\<close> itself, in
  which case \<open>..\<close> is kept when \<open>allowAboveRoot\<close> holds and skipped otherwise.
\<close>

fun normalizeSegments :: "bool \<Rightarrow> string list \<Rightarrow> string list \<Rightarrow> string list" where
  "normalizeSegments allowAboveRoot res [] = res"
| "normalizeSegments allowAboveRoot res (seg # segs) =
     (if seg = [] \<or> seg = ''.'' then normalizeSegments allowAboveRoot res segs
      else if seg = ''..'' then
        (if res \<noteq> [] \<and> last res \<noteq> ''..''
         then normalizeSegments allowAboveRoot (butlast res) segs
         else if allowAboveRoot then normalizeSegments allowAboveRoot (res @ [''..'']) segs
         else normalizeSegments allowAboveRoot res segs)
      else normalizeSegments allowAboveRoot (res @ [seg]) segs)"

definition normalizeString :: "string \<Rightarrow> bool \<Rightarrow> string" where
  "normalizeString p allowAboveRoot =
     joinWith CHR ''/'' (normalizeSegments allowAboveRoot [] (splitOn CHR ''/'' p))"

definition isAbsolute :: "string \<Rightarrow> bool" where
  "isAbsolute p = (case p of [] \<Rightarrow> False | c # cs \<Rightarrow> c = CHR ''/'')"

definition normalize :: "string \<Rightarrow> string" where
  "normalize p =
     (if p = [] then ''.''
      else let trailingSeparator = (last p = CHR ''/'');
               q = normalizeString p (\<not> isAbsolute p)
           in if q = [] then (if isAbsolute p then ''/'' else if trailingSeparator then ''./'' else ''.'')
              else (if isAbsolute p then ''/'' else []) @ q @ (if trailingSeparator then ''/'' else []))"

text \<open>\<open>path.join\<close> of two arguments.\<close>

definition join :: "string \<Rightarrow> string \<Rightarrow> string" where
  "join a b =
     (if a = [] \<and> b = [] then ''.''
      else if a = [] then normalize b
      else if b = [] then normalize a
      else normalize (a @ ''/'' @ b))"

text \<open>
  \<open>path.resolve\<close> of one argument; \<open>cwd\<close> is the absolute path \<open>process.cwd()\<close>
  returns.
\<close>

definition resolve :: "string \<Rightarrow> string \<Rightarrow> string" where
  "resolve cwd p =
     (if isAbsolute p then ''/'' @ normalizeString (p @ ''/'') False
      else if p = [] then ''/'' @ normalizeString (cwd @ ''/'') False
      else ''/'' @ normalizeString (cwd @ ''/'' @ p @ ''/'') False)"

definition checkFilePath :: "string \<Rightarrow> string \<Rightarrow> string \<Rightarrow> SafetyCheckResult" where
  "checkFilePath cwd filePath repoPath =
     (let normalizedPath = normalize filePath;
          absolutePath = (if isAbsolute normalizedPath then normalizedPath
                          else join repoPath normalizedPath);
          resolvedRepo = resolve cwd repoPath;
          resolvedFile = resolve cwd absolutePath
      in if \<not> startsWith resolvedFile resolvedRepo
         then \<lparr>allowed = False, reason = Some ''Path outside repository'', warning = None\<rparr>
         else case firstMatch PROTECTED_FILE_PATTERNS normalizedPath of
                Some r \<Rightarrow> \<lparr>allowed = False, reason = Some (''Protected file: '' @ r), warning = None\<rparr>
              | None \<Rightarrow>
                  (case firstMatch SENSITIVE_FILE_PATTERNS normalizedPath of
                     Some w \<Rightarrow> \<lparr>allowed = True, reason = None, warning = Some w\<rparr>
                   | None \<Rightarrow> \<lparr>allowed = True, reason = None, warning = None\<rparr>))"

section \<open>The pipeline (src/handlers/issue-processor.ts)\<close>

subsection \<open>Results of the collaborators\<close>

record GitBranchResult =
  gb_success :: bool
  gb_branchName :: "string option"
  gb_error :: "string option"

record GitCommitResult =
  gc_success :: bool
  gc_hash :: "string option"
  gc_error :: "string option"

record GitHubPRResult =
  pr_success :: bool
  pr_prNumber :: "nat option"
  pr_prUrl :: "string option"
  pr_error :: "string option"

text \<open>
  Of an \<open>AgentResult\<close> the \<open>stats\<close> (durations and costs, floating point) are left out:
  the pipeline only prints them.  Of the status of the working tree the pipeline reads
  the three lists below.
\<close>

record AgentResult =
  ag_success :: bool
  ag_analysis :: string
  ag_filesModified :: "string list"
  ag_commandsRun :: "string list"
  ag_error :: "string option"

record StatusResult =
  modified :: "string list"
  created :: "string list"
  not_added :: "string list"

text \<open>
  The places where \<open>processIssue\<close> awaits \<open>slackService.updateMessage\<close> directly, so that
  a rejection is an exception in \<open>processIssue\<close>, and the two calls of
  \<open>slackService.postMessage\<close>.  The texts of the messages are not modelled.
\<close>

datatype site =
    U_CliMissing | U_AgentFailed | U_NoChanges | U_CreatingBranch | U_BranchFailed
  | U_PreparingCommit | U_Committing | U_CommitFailed | U_Pushing | U_PushFailed
  | U_ExistingPR | U_CreatingPR | U_PRFailed | U_Deploying | U_Success | U_PartialSuccess
  | U_SystemError

datatype post = P_Initial | P_CriticalError

datatype BranchNamingStrategy = B_fix | B_feat | B_refactor | B_chore

text \<open>
  The operations \<open>processIssue\<close> invokes on its collaborators, with the arguments the
  properties below speak of.  \<open>UpdateSlackStatus\<close> is the helper of that name, which
  catches what \<open>updateMessage\<close> throws; \<open>addReaction\<close> catches likewise; a failed
  \<open>getPullRequest\<close> is caught where it is called.  The updates that the \<open>onProgress\<close>
  callback sends while the agent runs are caught too and are not recorded.
\<close>

datatype call =
    AddReaction string
  | PostMessage post
  | UpdateSlackStatus
  | UpdateMessage site
  | GetPullRequest PRReferenceInfo
  | InitializeRepo
  | CheckoutExistingBranch string
  | DownloadImages
  | CheckClaudeCliInstalled
  | AnalyzeAndFix
  | GetStatus
  | CreateBranch BranchNamingStrategy string
  | CommitChanges "string list"
  | PushBranch string
  | CreatePullRequest string
  | AddLabels nat
  | WaitForDeployment string
  | GetVercelPreviewUrlFromComments nat

text \<open>
  What the collaborators answer in one run of \<open>processIssue\<close>: every operation but
  \<open>updateMessage\<close> and \<open>postMessage\<close> is invoked at most once in a run.  \<open>cliMode\<close> is
  \<open>config.claude.mode === 'cli'\<close>; \<open>analyzeAndFix\<close> stands for the service that mode
  selects; of the answer of \<open>checkClaudeCliInstalled\<close> only \<open>installed\<close> is read.
\<close>

record collaborators =
  postMessage :: "post \<Rightarrow> string outcome"
  updateMessage :: "site \<Rightarrow> unit outcome"
  initializeRepo :: "unit outcome"
  checkoutExistingBranch :: "GitBranchResult outcome"
  downloadImages :: "unit outcome"
  cliMode :: bool
  checkClaudeCliInstalled :: "bool outcome"
  analyzeAndFix :: "AgentResult outcome"
  getStatus :: "StatusResult outcome"
  createBranch :: "GitBranchResult outcome"
  commitChanges :: "GitCommitResult outcome"
  pushBranch :: "bool outcome"
  createPullRequest :: "GitHubPRResult outcome"
  addLabels :: "unit outcome"
  waitForDeployment :: "DeploymentResult outcome"
  getVercelPreviewUrlFromComments :: "string option outcome"

text \<open>The state a run works on: the thread tracking and the operations invoked so far.\<close>

record run =
  trk :: tracking
  calls :: "call list"

definition called :: "call \<Rightarrow> run \<Rightarrow> run" where
  "called c st = st\<lparr>calls := calls st @ [c]\<rparr>"

definition cleared :: "IssueJob \<Rightarrow> run \<Rightarrow> run" where
  "cleared job st = st\<lparr>trk := clearActiveThread (threadTs job) (trk st)\<rparr>"

definition marked :: "IssueJob \<Rightarrow> ThreadContext option \<Rightarrow> run \<Rightarrow> run" where
  "marked job context st = st\<lparr>trk := markThreadCompleted (threadTs job) context (trk st)\<rparr>"

text \<open>Truthiness of an optional number: \<open>undefined\<close> and \<open>0\<close> are falsy.\<close>

fun truthyNum :: "nat option \<Rightarrow> bool" where
  "truthyNum None = False"
| "truthyNum (Some n) = (n \<noteq> 0)"

subsection \<open>Helper functions\<close>

text \<open>\<open>String.prototype.toLowerCase\<close> below U+0100.\<close>

definition toLowerChar :: "char \<Rightarrow> char" where
  "toLowerChar c =
     (if inRange CHR ''A'' CHR ''Z'' c \<or> (inRange CHR 0xC0 CHR 0xDE c \<and> c \<noteq> CHR 0xD7)
      then char_of (of_char c + (32::nat)) else c)"

definition toLowerCase :: "string \<Rightarrow> string" where
  "toLowerCase s = map toLowerChar s"

definition determineBranchType :: "string \<Rightarrow> BranchNamingStrategy" where
  "determineBranchType t =
     (let lowerText = toLowerCase t
      in if includes_str lowerText ''bug'' \<or> includes_str lowerText ''fix'' \<or>
            includes_str lowerText ''error'' \<or> includes_str lowerText ''broken'' then B_fix
         else if includes_str lowerText ''feature'' \<or> includes_str lowerText ''add'' \<or>
            includes_str lowerText ''implement'' \<or> includes_str lowerText ''new'' then B_feat
         else if includes_str lowerText ''refactor'' \<or> includes_str lowerText ''improve'' \<or>
            includes_str lowerText ''optimize'' \<or> includes_str lowerText ''clean'' then B_refactor
         else B_chore)"

text \<open>\<open>[...new Set(xs)]\<close>: the elements of \<open>xs\<close> in the order of their first occurrence.\<close>

fun spreadSet :: "string list \<Rightarrow> string list \<Rightarrow> string list" where
  "spreadSet seen [] = seen"
| "spreadSet seen (x # xs) = (if x \<in> set seen then spreadSet seen xs else spreadSet (seen @ [x]) xs)"

text \<open>The \<open>allFilesChanged\<close> of step 10.\<close>

definition allFilesChanged :: "ThreadContext option \<Rightarrow> string list \<Rightarrow> string list" where
  "allFilesChanged context files =
     (case context of
        Some c \<Rightarrow> spreadSet [] (filesChanged c @ files)
      | None \<Rightarrow> files)"

text \<open>\<open>threadContext?.originalIssueText || text\<close>\<close>

definition originalIssueTextOr :: "ThreadContext option \<Rightarrow> string \<Rightarrow> string" where
  "originalIssueTextOr context t =
     (case context of
        Some c \<Rightarrow> (if originalIssueText c \<noteq> [] then originalIssueText c else t)
      | None \<Rightarrow> t)"

definition failedResult :: "IssueJob \<Rightarrow> string option \<Rightarrow> JobResult" where
  "failedResult job err =
     \<lparr>res_jobId = id_job job, res_status = failed, res_branchName = None, res_prUrl = None,
      res_previewUrl = None, res_result = None, res_deployment = None, res_error = err\<rparr>"

text \<open>
  \<open>await slackService.updateMessage(...)\<close> at \<open>site\<close>, then the rest of the \<open>try\<close> block
  \<open>k\<close>; a rejection leaves the block.
\<close>

definition upd ::
  "collaborators \<Rightarrow> site \<Rightarrow> run \<Rightarrow> (run \<Rightarrow> JobResult outcome \<times> run) \<Rightarrow> JobResult outcome \<times> run" where
  "upd w site st k =
     (case updateMessage w site of
        Throws m \<Rightarrow> (Throws m, called (UpdateMessage site) st)
      | Returns u \<Rightarrow> k (called (UpdateMessage site) st))"

subsection \<open>The \<open>try\<close> block, last step first\<close>

text \<open>
  Each step takes the collaborators, the job, the local variables the rest of the block
  reads (\<open>branchName\<close>, \<open>prUrl\<close>, \<open>prNumber\<close>, \<open>filesChanged\<close>, the agent's result) and the
  state; it returns what the block returns from there on: a \<open>JobResult\<close>, or the
  exception that leaves the block.
\<close>

text \<open>Step 10: report, store the thread's context, return.\<close>

definition step10 ::
  "collaborators \<Rightarrow> IssueJob \<Rightarrow> string \<Rightarrow> string option \<Rightarrow> nat option \<Rightarrow> string list
     \<Rightarrow> DeploymentResult \<Rightarrow> run \<Rightarrow> JobResult outcome \<times> run" where
  "step10 w job branch finalPrUrl finalPrNumber files deployment st =
     (let context =
            \<lparr>branchName = branch, prUrl = finalPrUrl, prNumber = finalPrNumber,
             originalIssueText = originalIssueTextOr (threadContext job) (text_job job),
             filesChanged = allFilesChanged (threadContext job) files\<rparr>
      in if dep_success deployment \<and> truthy (dep_url deployment)
         then upd w U_Success st (\<lambda>st.
                (Returns
                   \<lparr>res_jobId = id_job job, res_status = completed, res_branchName = Some branch,
                    res_prUrl = finalPrUrl, res_previewUrl = dep_url deployment,
                    res_result = None, res_deployment = Some deployment, res_error = None\<rparr>,
                 marked job (Some context) (called (AddReaction ''white_check_mark'') st)))
         else upd w U_PartialSuccess st (\<lambda>st.
                (Returns
                   \<lparr>res_jobId = id_job job, res_status = completed, res_branchName = Some branch,
                    res_prUrl = finalPrUrl, res_previewUrl = None,
                    res_result = None, res_deployment = Some deployment, res_error = None\<rparr>,
                 marked job (Some context) (called (AddReaction ''warning'') st))))"

text \<open>Step 9: wait for the deployment, falling back to the pull request's comments.\<close>

definition step9 ::
  "collaborators \<Rightarrow> IssueJob \<Rightarrow> string \<Rightarrow> string option \<Rightarrow> nat option \<Rightarrow> string list
     \<Rightarrow> run \<Rightarrow> JobResult outcome \<times> run" where
  "step9 w job branch finalPrUrl finalPrNumber files st =
     upd w U_Deploying st (\<lambda>st.
       case waitForDeployment w of
         Throws m \<Rightarrow> (Throws m, called (WaitForDeployment branch) st)
       | Returns deployment \<Rightarrow>
           if dep_success deployment \<and>
              dep_url deployment = Some ''https://vercel-auto-deploy.example.com'' \<and>
              truthyNum finalPrNumber
           then (case getVercelPreviewUrlFromComments w of
                   Throws m \<Rightarrow>
                     (Throws m, called (GetVercelPreviewUrlFromComments (the finalPrNumber))
                                  (called (WaitForDeployment branch) st))
                 | Returns previewUrl \<Rightarrow>
                     step10 w job branch finalPrUrl finalPrNumber files
                       (if truthy previewUrl
                        then \<lparr>dep_success = True, dep_url = previewUrl,
                              dep_status = Some ''READY'', dep_error = None\<rparr>
                        else \<lparr>dep_success = False, dep_url = None, dep_status = None,
                              dep_error =
                                Some ''Preview URL not found in Vercel API or PR comments''\<rparr>)
                       (called (GetVercelPreviewUrlFromComments (the finalPrNumber))
                          (called (WaitForDeployment branch) st)))
           else step10 w job branch finalPrUrl finalPrNumber files deployment
                  (called (WaitForDeployment branch) st))"

text \<open>Step 8: create the pull request, unless the thread has one.\<close>

definition step8 ::
  "collaborators \<Rightarrow> IssueJob \<Rightarrow> string \<Rightarrow> string option \<Rightarrow> nat option \<Rightarrow> string list
     \<Rightarrow> run \<Rightarrow> JobResult outcome \<times> run" where
  "step8 w job branch prUrl0 prNumber0 files st =
     (if truthy prUrl0 \<and> truthyNum prNumber0
      then upd w U_ExistingPR st (\<lambda>st. step9 w job branch prUrl0 prNumber0 files st)
      else upd w U_CreatingPR st (\<lambda>st.
        case createPullRequest w of
          Throws m \<Rightarrow> (Throws m, called (CreatePullRequest branch) st)
        | Returns prResult \<Rightarrow>
            if \<not> pr_success prResult \<or> \<not> truthy (pr_prUrl prResult)
            then upd w U_PRFailed (called (CreatePullRequest branch) st) (\<lambda>st.
                   (Returns
                      \<lparr>res_jobId = id_job job, res_status = completed,
                       res_branchName = Some branch, res_prUrl = None, res_previewUrl = None,
                       res_result = None, res_deployment = None,
                       res_error = pr_error prResult\<rparr>, st))
            else if truthyNum (pr_prNumber prResult)
            then (case addLabels w of
                    Throws m \<Rightarrow>
                      (Throws m, called (AddLabels (the (pr_prNumber prResult)))
                                   (called (CreatePullRequest branch) st))
                  | Returns u \<Rightarrow>
                      step9 w job branch (pr_prUrl prResult) (pr_prNumber prResult) files
                        (called (AddLabels (the (pr_prNumber prResult)))
                           (called (CreatePullRequest branch) st)))
            else step9 w job branch (pr_prUrl prResult) (pr_prNumber prResult) files
                   (called (CreatePullRequest branch) st)))"

text \<open>Step 7: push.\<close>

definition step7 ::
  "collaborators \<Rightarrow> IssueJob \<Rightarrow> string \<Rightarrow> string option \<Rightarrow> nat option \<Rightarrow> string list
     \<Rightarrow> run \<Rightarrow> JobResult outcome \<times> run" where
  "step7 w job branch prUrl0 prNumber0 files st =
     upd w U_Pushing st (\<lambda>st.
       case pushBranch w of
         Throws m \<Rightarrow> (Throws m, called (PushBranch branch) st)
       | Returns pushSuccess \<Rightarrow>
           if \<not> pushSuccess
           then upd w U_PushFailed (called (PushBranch branch) st) (\<lambda>st.
                  (Returns (failedResult job (Some ''Failed to push to remote'')), cleared job st))
           else step8 w job branch prUrl0 prNumber0 files (called (PushBranch branch) st))"

text \<open>Step 6: commit.\<close>

definition step6 ::
  "collaborators \<Rightarrow> IssueJob \<Rightarrow> string \<Rightarrow> string option \<Rightarrow> nat option \<Rightarrow> string list
     \<Rightarrow> run \<Rightarrow> JobResult outcome \<times> run" where
  "step6 w job branch prUrl0 prNumber0 files st =
     upd w U_Committing st (\<lambda>st.
       case commitChanges w of
         Throws m \<Rightarrow> (Throws m, called (CommitChanges files) st)
       | Returns commitResult \<Rightarrow>
           if \<not> gc_success commitResult
           then upd w U_CommitFailed (called (CommitChanges files) st) (\<lambda>st.
                  (Returns (failedResult job (gc_error commitResult)), cleared job st))
           else step7 w job branch prUrl0 prNumber0 files (called (CommitChanges files) st))"

text \<open>Step 5: create a branch, unless the thread's branch is checked out.\<close>

definition step5 ::
  "collaborators \<Rightarrow> IssueJob \<Rightarrow> string option \<Rightarrow> string option \<Rightarrow> nat option \<Rightarrow> string list
     \<Rightarrow> run \<Rightarrow> JobResult outcome \<times> run" where
  "step5 w job branchName0 prUrl0 prNumber0 files st =
     (if \<not> truthy branchName0
      then upd w U_CreatingBranch st (\<lambda>st.
        let c = CreateBranch (determineBranchType (text_job job)) (take 50 (text_job job))
        in case createBranch w of
             Throws m \<Rightarrow> (Throws m, called c st)
           | Returns branchResult \<Rightarrow>
               if \<not> gb_success branchResult \<or> \<not> truthy (gb_branchName branchResult)
               then upd w U_BranchFailed (called c st) (\<lambda>st.
                      (Returns (failedResult job (gb_error branchResult)), cleared job st))
               else step6 w job (the (gb_branchName branchResult)) prUrl0 prNumber0 files
                      (called c st))
      else upd w U_PreparingCommit st (\<lambda>st.
             step6 w job (the branchName0) prUrl0 prNumber0 files st))"

text \<open>Step 4: the agent's verdict, then the changes in the working tree.\<close>

definition step4 ::
  "collaborators \<Rightarrow> IssueJob \<Rightarrow> string option \<Rightarrow> string option \<Rightarrow> nat option \<Rightarrow> AgentResult
     \<Rightarrow> run \<Rightarrow> JobResult outcome \<times> run" where
  "step4 w job branchName0 prUrl0 prNumber0 agentResult st =
     (if \<not> ag_success agentResult
      then upd w U_AgentFailed st (\<lambda>st.
             (Returns (failedResult job (ag_error agentResult)), cleared job st))
      else case getStatus w of
             Throws m \<Rightarrow> (Throws m, called GetStatus st)
           | Returns gitStatus \<Rightarrow>
               let files = modified gitStatus @ created gitStatus @ not_added gitStatus
               in if length files = 0
                  then upd w U_NoChanges (called GetStatus st) (\<lambda>st.
                         (Returns
                            \<lparr>res_jobId = id_job job, res_status = completed,
                             res_branchName = None, res_prUrl = None, res_previewUrl = None,
                             res_result =
                               Some \<lparr>fr_success = True, fr_analysis = ag_analysis agentResult,
                                     fr_solution = ''No changes made'', fr_filesChanged = [],
                                     fr_fixes = []\<rparr>,
                             res_deployment = None, res_error = None\<rparr>,
                          marked job None st))
                  else step5 w job branchName0 prUrl0 prNumber0 files (called GetStatus st))"

text \<open>Step 3: check the CLI in CLI mode, run the agent.\<close>

definition runAgent ::
  "collaborators \<Rightarrow> IssueJob \<Rightarrow> string option \<Rightarrow> string option \<Rightarrow> nat option
     \<Rightarrow> run \<Rightarrow> JobResult outcome \<times> run" where
  "runAgent w job branchName0 prUrl0 prNumber0 st =
     (case analyzeAndFix w of
        Throws m \<Rightarrow> (Throws m, called AnalyzeAndFix st)
      | Returns agentResult \<Rightarrow>
          step4 w job branchName0 prUrl0 prNumber0 agentResult (called AnalyzeAndFix st))"

definition step3 ::
  "collaborators \<Rightarrow> IssueJob \<Rightarrow> string option \<Rightarrow> string option \<Rightarrow> nat option
     \<Rightarrow> run \<Rightarrow> JobResult outcome \<times> run" where
  "step3 w job branchName0 prUrl0 prNumber0 st =
     (if cliMode w
      then (case checkClaudeCliInstalled w of
              Throws m \<Rightarrow> (Throws m, called CheckClaudeCliInstalled st)
            | Returns installed \<Rightarrow>
                if \<not> installed
                then upd w U_CliMissing (called CheckClaudeCliInstalled st) (\<lambda>st.
                       (Returns (failedResult job (Some ''Claude CLI not installed'')),
                        cleared job st))
                else runAgent w job branchName0 prUrl0 prNumber0
                       (called CheckClaudeCliInstalled st))
      else runAgent w job branchName0 prUrl0 prNumber0 st)"

text \<open>Step 2.5: download the images, if the job has any.\<close>

definition step2_5 ::
  "collaborators \<Rightarrow> IssueJob \<Rightarrow> string option \<Rightarrow> string option \<Rightarrow> nat option
     \<Rightarrow> run \<Rightarrow> JobResult outcome \<times> run" where
  "step2_5 w job branchName0 prUrl0 prNumber0 st =
     (case images job of
        Some (i # is) \<Rightarrow>
          (case downloadImages w of
             Throws m \<Rightarrow> (Throws m, called DownloadImages (called UpdateSlackStatus st))
           | Returns u \<Rightarrow>
               step3 w job branchName0 prUrl0 prNumber0
                 (called DownloadImages (called UpdateSlackStatus st)))
      | _ \<Rightarrow> step3 w job branchName0 prUrl0 prNumber0 st)"

text \<open>
  Step 2: initialise the repository; for a follow-up check the thread's branch out, and
  forget the branch when that fails, so that step 5 creates a new one.
\<close>

definition step2 ::
  "collaborators \<Rightarrow> IssueJob \<Rightarrow> string option \<Rightarrow> string option \<Rightarrow> nat option
     \<Rightarrow> run \<Rightarrow> JobResult outcome \<times> run" where
  "step2 w job branchName0 prUrl0 prNumber0 st =
     (case initializeRepo w of
        Throws m \<Rightarrow> (Throws m, called InitializeRepo (called UpdateSlackStatus st))
      | Returns u \<Rightarrow>
          let st = called InitializeRepo (called UpdateSlackStatus st)
          in if isFollowUp job = Some True \<and> truthy branchName0
             then (let c = CheckoutExistingBranch (the branchName0)
                   in case checkoutExistingBranch w of
                        Throws m \<Rightarrow> (Throws m, called c (called UpdateSlackStatus st))
                      | Returns checkoutResult \<Rightarrow>
                          step2_5 w job
                            (if \<not> gb_success checkoutResult then None else branchName0)
                            prUrl0 prNumber0 (called c (called UpdateSlackStatus st)))
             else step2_5 w job branchName0 prUrl0 prNumber0 st)"

text \<open>Step 1.5: fetch the referenced pull requests, if the job has any.\<close>

definition step1_5 ::
  "collaborators \<Rightarrow> IssueJob \<Rightarrow> string option \<Rightarrow> string option \<Rightarrow> nat option
     \<Rightarrow> run \<Rightarrow> JobResult outcome \<times> run" where
  "step1_5 w job branchName0 prUrl0 prNumber0 st =
     (case prReferences job of
        Some (r # rs) \<Rightarrow>
          step2 w job branchName0 prUrl0 prNumber0
            (st\<lparr>calls := calls st @ UpdateSlackStatus # map GetPullRequest (r # rs)\<rparr>)
      | _ \<Rightarrow> step2 w job branchName0 prUrl0 prNumber0 st)"

subsection \<open>The \<open>catch\<close> block and \<open>processIssue\<close>\<close>

text \<open>
  The \<open>catch\<close> block releases the thread, then reports on the status message if there
  is one, with a new message if that update fails; an exception of that last call
  leaves \<open>processIssue\<close>.
\<close>

definition catchBlock ::
  "collaborators \<Rightarrow> IssueJob \<Rightarrow> string option \<Rightarrow> string \<Rightarrow> run \<Rightarrow> JobResult outcome \<times> run" where
  "catchBlock w job statusMessageTs message st =
     (let st = cleared job st
      in if truthy statusMessageTs
         then (case updateMessage w U_SystemError of
                 Returns u \<Rightarrow>
                   (Returns (failedResult job (Some message)),
                    called (UpdateMessage U_SystemError) st)
               | Throws m1 \<Rightarrow>
                   (case postMessage w P_CriticalError of
                      Returns t \<Rightarrow>
                        (Returns (failedResult job (Some message)),
                         called (PostMessage P_CriticalError)
                           (called (UpdateMessage U_SystemError) st))
                    | Throws m2 \<Rightarrow>
                        (Throws m2,
                         called (PostMessage P_CriticalError)
                           (called (UpdateMessage U_SystemError) st))))
         else (Returns (failedResult job (Some message)), st))"

text \<open>
  \<open>processIssue\<close> on a job, given the thread tracking as it stands: the result (or the
  exception that leaves the function), the thread tracking afterwards and the
  operations invoked, in order.
\<close>

definition processIssue :: "collaborators \<Rightarrow> IssueJob \<Rightarrow> tracking \<Rightarrow> JobResult outcome \<times> run" where
  "processIssue w job t =
     (let reuse = (isFollowUp job = Some True \<and> threadContext job \<noteq> None);
          branchName0 = (if reuse then Some (branchName (the (threadContext job))) else None);
          prUrl0 = (if reuse then prUrl (the (threadContext job)) else None);
          prNumber0 = (if reuse then prNumber (the (threadContext job)) else None);
          st = \<lparr>trk = t, calls = [AddReaction ''eyes'', PostMessage P_Initial]\<rparr>
      in case postMessage w P_Initial of
           Throws m \<Rightarrow> catchBlock w job None m st
         | Returns statusMessageTs \<Rightarrow>
             (case step1_5 w job branchName0 prUrl0 prNumber0 st of
                (Returns result, st') \<Rightarrow> (Returns result, st')
              | (Throws m, st') \<Rightarrow> catchBlock w job (Some statusMessageTs) m st'))"

text \<open>\<open>processIssue\<close> as the handler of the queue, on the thread tracking.\<close>

definition processIssueHandler :: "collaborators \<Rightarrow> tracking JobHandler" where
  "processIssueHandler w job t = (fst (processIssue w job t), trk (snd (processIssue w job t)))"

subsection \<open>Vocabulary for the properties of \<open>processIssue\<close>\<close>

text \<open>
  An invoked operation of the stages CLI check, agent run, branch creation, commit and
  push whose collaborator, in this run, returns a result that the pipeline reads as a
  failure.
\<close>

fun stageFailed :: "collaborators \<Rightarrow> call \<Rightarrow> bool" where
  "stageFailed w CheckClaudeCliInstalled = (checkClaudeCliInstalled w = Returns False)"
| "stageFailed w AnalyzeAndFix =
     (case analyzeAndFix w of Returns a \<Rightarrow> \<not> ag_success a | Throws m \<Rightarrow> False)"
| "stageFailed w (CreateBranch ty d) =
     (case createBranch w of
        Returns b \<Rightarrow> \<not> gb_success b \<or> \<not> truthy (gb_branchName b)
      | Throws m \<Rightarrow> False)"
| "stageFailed w (CommitChanges fs) =
     (case commitChanges w of Returns c \<Rightarrow> \<not> gc_success c | Throws m \<Rightarrow> False)"
| "stageFailed w (PushBranch b) = (pushBranch w = Returns False)"
| "stageFailed w c = False"

text \<open>Likewise for the creation of the pull request.\<close>

fun prCreationFailed :: "collaborators \<Rightarrow> call \<Rightarrow> bool" where
  "prCreationFailed w (CreatePullRequest b) =
     (case createPullRequest w of
        Returns p \<Rightarrow> \<not> pr_success p \<or> \<not> truthy (pr_prUrl p)
      | Throws m \<Rightarrow> False)"
| "prCreationFailed w c = False"

definition prError :: "collaborators \<Rightarrow> string option" where
  "prError w = (case createPullRequest w of Returns p \<Rightarrow> pr_error p | Throws m \<Rightarrow> None)"

text \<open>
  What holds before and after every step of the \<open>try\<close> block: as long as no invoked
  operation has failed the block goes on; once one has, the block returns a \<open>failed\<close>
  result with the thread released, or throws; after a failed creation of the pull
  request it returns a \<open>completed\<close> result with the branch and the error, unless the
  notice of the failure throws.
\<close>

definition noFailureYet :: "collaborators \<Rightarrow> run \<Rightarrow> bool" where
  "noFailureYet w st = list_all (\<lambda>c. \<not> stageFailed w c \<and> \<not> prCreationFailed w c) (calls st)"

definition tryBlockPost :: "collaborators \<Rightarrow> IssueJob \<Rightarrow> JobResult outcome \<times> run \<Rightarrow> bool" where
  "tryBlockPost w job x =
     ((case fst x of
         Returns r \<Rightarrow>
           (res_status r = failed \<longrightarrow> threadTs job \<notin> activeThreads (trk (snd x))) \<and>
           (list_ex (stageFailed w) (calls (snd x)) \<longrightarrow> res_status r = failed)
       | Throws m \<Rightarrow> True) \<and>
      (list_ex (prCreationFailed w) (calls (snd x)) \<longrightarrow>
         (case updateMessage w U_PRFailed of
            Returns u \<Rightarrow>
              (case fst x of
                 Returns r \<Rightarrow>
                   res_status r = completed \<and> res_error r = prError w \<and>
                   list_ex (\<lambda>c. \<exists>b. c = CreatePullRequest b \<and> res_branchName r = Some b)
                     (calls (snd x))
               | Throws m \<Rightarrow> False)
          | Throws m \<Rightarrow> fst x = Throws m)))"

text \<open>The operations that create a branch, commit, push or create a pull request.\<close>

fun isRepoMutation :: "call \<Rightarrow> bool" where
  "isRepoMutation (CreateBranch ty d) = True"
| "isRepoMutation (CommitChanges fs) = True"
| "isRepoMutation (PushBranch b) = True"
| "isRepoMutation (CreatePullRequest b) = True"
| "isRepoMutation c = False"

text \<open>The result that step 4 returns when the working tree has no changes.\<close>

definition noChangesResult :: "IssueJob \<Rightarrow> AgentResult \<Rightarrow> JobResult" where
  "noChangesResult job a =
     \<lparr>res_jobId = id_job job, res_status = completed, res_branchName = None, res_prUrl = None,
      res_previewUrl = None,
      res_result = Some \<lparr>fr_success = True, fr_analysis = ag_analysis a,
                         fr_solution = ''No changes made'', fr_filesChanged = [], fr_fixes = []\<rparr>,
      res_deployment = None, res_error = None\<rparr>"

definition noChangesPre :: "tracking \<Rightarrow> run \<Rightarrow> bool" where
  "noChangesPre t0 st =
     (trk st = t0 \<and> list_all (\<lambda>c. \<not> isRepoMutation c \<and> c \<noteq> GetStatus) (calls st))"

definition noChangesPost ::
  "collaborators \<Rightarrow> IssueJob \<Rightarrow> AgentResult \<Rightarrow> tracking \<Rightarrow> JobResult outcome \<times> run \<Rightarrow> bool" where
  "noChangesPost w job a t0 x =
     (list_all (\<lambda>c. \<not> isRepoMutation c) (calls (snd x)) \<and>
      (if list_ex (\<lambda>c. c = GetStatus) (calls (snd x))
       then (case updateMessage w U_NoChanges of
               Returns u \<Rightarrow>
                 fst x = Returns (noChangesResult job a) \<and>
                 trk (snd x) = markThreadCompleted (threadTs job) None t0
             | Throws m \<Rightarrow> fst x = Throws m \<and> trk (snd x) = t0)
       else trk (snd x) = t0 \<or> trk (snd x) = clearActiveThread (threadTs job) t0))"

text \<open>
  The files the working tree reports as changed in this run; the branch \<open>processIssue\<close>
  starts with; the branch left after the checkout of step 2; the branch step 5 goes on
  with.
\<close>

definition filesOf :: "collaborators \<Rightarrow> string list" where
  "filesOf w =
     (case getStatus w of
        Returns g \<Rightarrow> modified g @ created g @ not_added g
      | Throws m \<Rightarrow> [])"

definition reusedBranch :: "IssueJob \<Rightarrow> string option" where
  "reusedBranch job =
     (if isFollowUp job = Some True \<and> threadContext job \<noteq> None
      then Some (branchName (the (threadContext job))) else None)"

definition branchAfterCheckout :: "collaborators \<Rightarrow> IssueJob \<Rightarrow> string option \<Rightarrow> string option" where
  "branchAfterCheckout w job bo =
     (if isFollowUp job = Some True \<and> truthy bo
      then (case checkoutExistingBranch w of
              Returns co \<Rightarrow> (if \<not> gb_success co then None else bo)
            | Throws m \<Rightarrow> bo)
      else bo)"

definition branchAtStep5 :: "collaborators \<Rightarrow> string option \<Rightarrow> string" where
  "branchAtStep5 w bo =
     (if truthy bo then the bo
      else case createBranch w of
             Returns b \<Rightarrow> (case gb_branchName b of Some name \<Rightarrow> name | None \<Rightarrow> [])
           | Throws m \<Rightarrow> [])"

text \<open>
  An operation agrees with working on \<open>branch\<close>: it pushes that branch, creates the pull
  request from it, and creates no branch when the thread's branch is reused.
\<close>

fun onBranch :: "bool \<Rightarrow> string \<Rightarrow> call \<Rightarrow> bool" where
  "onBranch reuse branch (PushBranch b) = (b = branch)"
| "onBranch reuse branch (CreatePullRequest b) = (b = branch)"
| "onBranch reuse branch (CreateBranch ty d) = (\<not> reuse)"
| "onBranch reuse branch c = True"

text \<open>The context step 10 stores for the thread.\<close>

definition storedContext ::
  "IssueJob \<Rightarrow> string \<Rightarrow> string option \<Rightarrow> nat option \<Rightarrow> string list \<Rightarrow> ThreadContext" where
  "storedContext job branch pu pn files =
     \<lparr>branchName = branch, prUrl = pu, prNumber = pn,
      originalIssueText = originalIssueTextOr (threadContext job) (text_job job),
      filesChanged = allFilesChanged (threadContext job) files\<rparr>"

definition branchPre :: "tracking \<Rightarrow> bool \<Rightarrow> string \<Rightarrow> run \<Rightarrow> bool" where
  "branchPre t0 reuse branch st =
     (threadContextMap (trk st) = threadContextMap t0 \<and>
      list_all (onBranch reuse branch) (calls st))"

text \<open>
  Only a result of step 10 carries a deployment; with it the thread's context is stored,
  and in every other case the stored contexts are as before.
\<close>

definition branchPost ::
  "IssueJob \<Rightarrow> tracking \<Rightarrow> bool \<Rightarrow> string \<Rightarrow> string list \<Rightarrow> JobResult outcome \<times> run \<Rightarrow> bool" where
  "branchPost job t0 reuse branch files x =
     (list_all (onBranch reuse branch) (calls (snd x)) \<and>
      (case fst x of
         Returns r \<Rightarrow>
           (if res_deployment r \<noteq> None
            then \<exists>pu pn. threadContextMap (trk (snd x)) =
                   (threadContextMap t0)(threadTs job \<mapsto> storedContext job branch pu pn files)
            else threadContextMap (trk (snd x)) = threadContextMap t0)
       | Throws m \<Rightarrow> threadContextMap (trk (snd x)) = threadContextMap t0))"

text \<open>
  The spec's words for the traversal guard, to compare \<open>checkFilePath\<close> with: a resolved
  path lies within a resolved root when the root's segments are the first segments of
  the path.
\<close>

definition spec_liesWithin :: "string \<Rightarrow> string \<Rightarrow> bool" where
  "spec_liesWithin resolvedFile resolvedRepo =
     prefix (filter (\<lambda>seg. seg \<noteq> []) (splitOn CHR ''/'' resolvedRepo))
            (filter (\<lambda>seg. seg \<noteq> []) (splitOn CHR ''/'' resolvedFile))"

section \<open>Concrete inputs\<close>

definition ev_top :: SlackMessageEvent where
  "ev_top =
     \<lparr>ev_type = ''message'', ev_subtype = None, ev_channel = ''C1'', ev_user = Some ''U7'',
      ev_bot_id = None, ev_text = ''Fix the login bug'', ev_ts = ''1700.1'',
      ev_thread_ts = None, ev_files = None\<rparr>"

definition ev_reply :: SlackMessageEvent where
  "ev_reply =
     \<lparr>ev_type = ''message'', ev_subtype = None, ev_channel = ''C1'', ev_user = Some ''U7'',
      ev_bot_id = None, ev_text = ''also rename the button'', ev_ts = ''1700.2'',
      ev_thread_ts = Some ''1700.1'', ev_files = None\<rparr>"

definition job_top :: IssueJob where
  "job_top =
     \<lparr>id_job = ''1700.1'', text_job = ''Fix the login bug'', channel = ''C1'',
      threadTs = ''1700.1'', userId = ''U7'', retryCount = Some 0, isFollowUp = Some False,
      prReferences = None, images = None, threadContext = None\<rparr>"

definition job_reply :: IssueJob where
  "job_reply =
     \<lparr>id_job = ''1700.2'', text_job = ''also rename the button'', channel = ''C1'',
      threadTs = ''1700.1'', userId = ''U7'', retryCount = Some 0, isFollowUp = Some True,
      prReferences = None, images = None, threadContext = None\<rparr>"

text \<open>Thread \<open>1700.1\<close> in flight, and the same thread after it has completed once.\<close>

definition tracking_busy :: tracking where
  "tracking_busy =
     \<lparr>processedMessages = {''1700.1''}, activeThreads = {''1700.1''}, completedThreads = {},
      threadContextMap = Map.empty\<rparr>"

definition tracking_done :: tracking where
  "tracking_done =
     \<lparr>processedMessages = {''1700.1''}, activeThreads = {}, completedThreads = {''1700.1''},
      threadContextMap = Map.empty\<rparr>"

text \<open>A queue holding one job, with a handler that throws on every job.\<close>

definition queue_failing :: "unit AsyncJobQueue" where
  "queue_failing =
     \<lparr>queue = [job_top], processing = False, handler = Some (\<lambda>job st. (Throws ''timeout'', st))\<rparr>"

text \<open>
  Collaborators that all succeed, with one changed file; then the same with a pull
  request that cannot be created, with a push that fails, with no changes, with no
  changes and a status message that cannot be updated, and with a checkout that fails.
\<close>

definition world_ok :: collaborators where
  "world_ok =
     \<lparr>postMessage = (\<lambda>p. Returns ''1700.9''),
      updateMessage = (\<lambda>s. Returns ()),
      initializeRepo = Returns (),
      checkoutExistingBranch =
        Returns \<lparr>gb_success = True, gb_branchName = Some ''fix/x'', gb_error = None\<rparr>,
      downloadImages = Returns (),
      cliMode = False,
      checkClaudeCliInstalled = Returns True,
      analyzeAndFix =
        Returns \<lparr>ag_success = True, ag_analysis = ''Fixed the login handler'',
                 ag_filesModified = [''src/login.ts''], ag_commandsRun = [], ag_error = None\<rparr>,
      getStatus = Returns \<lparr>modified = [''src/login.ts''], created = [], not_added = []\<rparr>,
      createBranch =
        Returns \<lparr>gb_success = True, gb_branchName = Some ''fix/login-bug'', gb_error = None\<rparr>,
      commitChanges = Returns \<lparr>gc_success = True, gc_hash = Some ''abc1234'', gc_error = None\<rparr>,
      pushBranch = Returns True,
      createPullRequest =
        Returns \<lparr>pr_success = True, pr_prNumber = Some 7,
                 pr_prUrl = Some ''https://github.com/o/r/pull/7'', pr_error = None\<rparr>,
      addLabels = Returns (),
      waitForDeployment =
        Returns \<lparr>dep_success = True, dep_url = Some ''https://preview.example.com'',
                 dep_status = Some ''READY'', dep_error = None\<rparr>,
      getVercelPreviewUrlFromComments = Returns None\<rparr>"

definition world_pr_fails :: collaborators where
  "world_pr_fails =
     world_ok\<lparr>createPullRequest :=
       Returns \<lparr>pr_success = False, pr_prNumber = None, pr_prUrl = None,
                pr_error = Some ''Validation Failed''\<rparr>\<rparr>"

definition world_push_fails :: collaborators where
  "world_push_fails = world_ok\<lparr>pushBranch := Returns False\<rparr>"

definition world_no_changes :: collaborators where
  "world_no_changes =
     world_ok\<lparr>getStatus := Returns \<lparr>modified = [], created = [], not_added = []\<rparr>\<rparr>"

definition world_no_changes_slack_down :: collaborators where
  "world_no_changes_slack_down =
     world_no_changes\<lparr>updateMessage :=
       (\<lambda>s. if s = U_NoChanges then Throws ''Slack API error: ratelimited'' else Returns ())\<rparr>"

definition world_checkout_fails :: collaborators where
  "world_checkout_fails =
     world_ok\<lparr>checkoutExistingBranch :=
                Returns \<lparr>gb_success = False, gb_branchName = None,
                         gb_error = Some ''remote ref fix/x not found''\<rparr>,
              createBranch :=
                Returns \<lparr>gb_success = True, gb_branchName = Some ''chore/also-rename-button'',
                         gb_error = None\<rparr>\<rparr>"

text \<open>
  The context of the spec's follow-up scenario, a follow-up job that carries it, and the
  thread tracking when that job runs.
\<close>

definition context_x :: ThreadContext where
  "context_x =
     \<lparr>branchName = ''fix/x'', prUrl = Some ''https://github.com/o/r/pull/7'', prNumber = Some 7,
      originalIssueText = ''Fix the login bug'', filesChanged = [''a.ts'']\<rparr>"

definition context_b :: ThreadContext where
  "context_b = context_x\<lparr>filesChanged := [''b.ts'']\<rparr>"

definition job_followup :: IssueJob where
  "job_followup = job_reply\<lparr>threadContext := Some context_x\<rparr>"

definition tracking_followup :: tracking where
  "tracking_followup =
     \<lparr>processedMessages = {''1700.1'', ''1700.2''}, activeThreads = {''1700.1''},
      completedThreads = {''1700.1''}, threadContextMap = [''1700.1'' \<mapsto> context_x]\<rparr>"

section \<open>Properties of the job queue\<close>

text \<open>The attempts on one job, by computation induction on the loop.\<close>

lemma attempts_retry_counts:
  assumes "\<forall>k st. id_job k = i \<longrightarrow> \<not> jobCompleted (fst (h k st))"
    and "length (filter (\<lambda>k. id_job k = i) q) \<le> 1"
  shows "map retryCountOr0 (attemptsOf i (snd (processLoop h q st att))) =
           map retryCountOr0 (attemptsOf i att) @ remaining i q"
  using assms
proof (induction h q st att rule: processLoop.induct)
  case (1 h st attempts)
  then show ?case by (simp add: remaining_def)
next
  case (2 h job queue st attempts)
  let ?job' = "job\<lparr>retryCount := Some (retryCountOr0 job + 1)\<rparr>"
  show ?case
  proof (cases "id_job job = i")
    case other: False
    have "remaining i (queue @ [?job']) = remaining i queue"
      using other by (simp add: remaining_def)
    moreover have "remaining i (job # queue) = remaining i queue"
      using other by (simp add: remaining_def)
    ultimately show ?thesis using 2 other
      by (simp add: attemptsOf_def)
  next
    case mine: True
    with 2 have nc: "\<not> jobCompleted (fst (h job st))" by blast
    from mine 2(5) have none: "filter (\<lambda>k. id_job k = i) queue = []" by simp
    show ?thesis
    proof (cases "retryCountOr0 job < maxRetries")
      case True
      have r1: "remaining i (queue @ [?job']) = [Suc (retryCountOr0 job) ..< Suc maxRetries]"
        using mine none True by (simp add: remaining_def retryCountOr0_def max_def)
      have r2: "remaining i (job # queue) =
                  retryCountOr0 job # [Suc (retryCountOr0 job) ..< Suc maxRetries]"
        using mine True by (simp add: remaining_def max_def upt_conv_Cons)
      from 2(2)[OF nc True] 2(4) mine none
      have "map retryCountOr0
              (attemptsOf i (snd (processLoop h (queue @ [?job']) (snd (h job st)) (attempts @ [job]))))
            = map retryCountOr0 (attemptsOf i (attempts @ [job])) @ remaining i (queue @ [?job'])"
        by simp
      then show ?thesis using nc True mine r1 r2 by (simp add: attemptsOf_def)
    next
      case False
      have r2: "remaining i (job # queue) = [retryCountOr0 job]"
        using mine False by (simp add: remaining_def max_def)
      have r1: "remaining i queue = []" using none by (simp add: remaining_def)
      from 2(3)[OF nc False] 2(4) none
      have "map retryCountOr0
              (attemptsOf i (snd (processLoop h queue (snd (h job st)) (attempts @ [job]))))
            = map retryCountOr0 (attemptsOf i (attempts @ [job])) @ remaining i queue"
        by simp
      then show ?thesis using nc False mine r1 r2 by (simp add: attemptsOf_def)
    qed
  qed
qed

text \<open>
  C5.  A job enters the queue with retry counter 0 (the event handler creates it so; a
  missing counter reads as 0).  If the handler fails on it every time (a result whose
  status is not \<open>completed\<close>, or an exception), then one run of \<open>process\<close> invokes the
  handler on it exactly \<open>maxRetries + 1 = 3\<close> times, with retry counters 0, 1, 2 in this
  order, and leaves the queue empty.  A failed attempt with counter below \<open>maxRetries\<close>
  continues with the job, its counter incremented, appended to the tail of the queue;
  a failed attempt with any other counter continues without the job.
\<close>

theorem always_failing_job_attempted_maxRetries_plus_one_times:
  assumes h: "handler q = Some h" and idle: "\<not> processing q"
    and q: "queue q = before @ job # after"
    and uniq: "\<forall>k \<in> set (before @ after). id_job k \<noteq> id_job job"
    and fresh: "retryCountOr0 job = 0"
    and fails: "\<forall>k st. id_job k = id_job job \<longrightarrow> \<not> jobCompleted (fst (h k st))"
  shows "maxRetries = 2 \<and>
         length (attemptsOf (id_job job) (snd (snd (process q st)))) = maxRetries + 1 \<and>
         map retryCountOr0 (attemptsOf (id_job job) (snd (snd (process q st)))) =
           [0 ..< maxRetries + 1] \<and>
         queue (fst (process q st)) = [] \<and>
         (\<forall>j rest s att. \<not> jobCompleted (fst (h j s)) \<longrightarrow>
            processLoop h (j # rest) s att =
              (if retryCountOr0 j < maxRetries
               then processLoop h (rest @ [j\<lparr>retryCount := Some (retryCountOr0 j + 1)\<rparr>])
                      (snd (h j s)) (att @ [j])
               else processLoop h rest (snd (h j s)) (att @ [j])))"
proof -
  let ?i = "id_job job" and ?q = "before @ job # after"
  have f: "filter (\<lambda>k. id_job k = ?i) ?q = [job]"
    using uniq by (auto simp add: filter_empty_conv)
  have p: "process q st = (q\<lparr>queue := [], processing := False\<rparr>, processLoop h ?q st [])"
    using h idle q by (simp add: process_def)
  have m: "map retryCountOr0 (attemptsOf ?i (snd (processLoop h ?q st []))) =
             map retryCountOr0 (attemptsOf ?i []) @ remaining ?i ?q"
    using fails f by (intro attempts_retry_counts) simp_all
  have r: "remaining ?i ?q = [0 ..< maxRetries + 1]"
    using f fresh by (simp add: remaining_def)
  from m r have m': "map retryCountOr0 (attemptsOf ?i (snd (processLoop h ?q st []))) =
                       [0 ..< maxRetries + 1]"
    by (simp add: attemptsOf_def)
  then have "length (map retryCountOr0 (attemptsOf ?i (snd (processLoop h ?q st [])))) =
               length [0 ..< maxRetries + 1]"
    by simp
  then have l: "length (attemptsOf ?i (snd (processLoop h ?q st []))) = maxRetries + 1"
    by simp
  show ?thesis using p m' l by (simp add: maxRetries_def)
qed

theorem always_failing_job_witness:
  "handler queue_failing = Some (\<lambda>job st. (Throws ''timeout'', st)) \<and> queue queue_failing = [job_top] \<and>
   length (attemptsOf ''1700.1'' (snd (snd (process queue_failing ())))) = 3 \<and>
   map retryCountOr0 (attemptsOf ''1700.1'' (snd (snd (process queue_failing ())))) = [0, 1, 2] \<and>
   queue (fst (process queue_failing ())) = []"
proof -
  have u: "[0 ..< maxRetries + 1] = [0, 1, 2]"
    by (simp add: maxRetries_def upt_rec)
  show ?thesis
    using always_failing_job_attempted_maxRetries_plus_one_times
            [of queue_failing "\<lambda>job st. (Throws ''timeout'', st)" "[]" job_top "[]" "()"] u
    by (simp add: queue_failing_def job_top_def retryCountOr0_def maxRetries_def)
qed

section \<open>Properties of event admission\<close>

text \<open>
  C6.  An event whose thread key is in the active set leaves the tracking state as it
  is and enqueues no job, whether it is a top-level message or a reply.  A job is
  enqueued only for a thread key outside the active set, and it is a follow-up exactly
  when the event is a reply, in which case the thread key is in the completed set.
\<close>

theorem active_thread_event_not_enqueued:
  "(threadKey ev \<in> activeThreads s \<longrightarrow> slackEvents cid ex ev s = (s, None)) \<and>
   (slackEvents cid ex ev s = (s', Some job) \<longrightarrow>
      threadTs job = threadKey ev \<and> threadKey ev \<notin> activeThreads s \<and>
      isFollowUp job = Some (isThreadReply ev) \<and>
      (isFollowUp job = Some True \<longrightarrow> threadKey ev \<in> completedThreads s))"
  by (auto simp add: slackEvents_def Let_def split: if_splits)

theorem active_thread_event_witness:
  "threadKey ev_reply \<in> activeThreads tracking_busy \<and>
   slackEvents ''C1'' (\<lambda>t. []) ev_reply tracking_busy = (tracking_busy, None) \<and>
   threadKey ev_top \<in> activeThreads tracking_busy \<and>
   slackEvents ''C1'' (\<lambda>t. []) ev_top (tracking_busy\<lparr>processedMessages := {}\<rparr>) =
     (tracking_busy\<lparr>processedMessages := {}\<rparr>, None) \<and>
   snd (slackEvents ''C1'' (\<lambda>t. []) ev_reply tracking_done) = Some job_reply \<and>
   isFollowUp job_reply = Some True \<and> threadKey ev_reply \<in> completedThreads tracking_done"
proof -
  have k: "threadKey ev_reply = ''1700.1''" "threadKey ev_top = ''1700.1''"
    by (simp_all add: threadKey_def ev_reply_def ev_top_def)
  have t: "trim ''also rename the button'' = ''also rename the button''"
    by (simp add: trim_def isWhiteSpace_def)
  have a: "slackEvents ''C1'' (\<lambda>t. []) ev_reply tracking_done =
             (tracking_done\<lparr>processedMessages := {''1700.2'', ''1700.1''},
                            activeThreads := {''1700.1''}\<rparr>, Some job_reply)"
    by (simp add: slackEvents_def ev_reply_def tracking_done_def job_reply_def isThreadReply_def
          threadKey_def t getThreadContext_def imageAttachments_def Let_def)
  show ?thesis
    using active_thread_event_not_enqueued [of ev_reply tracking_busy "''C1''" "\<lambda>t. []"]
          active_thread_event_not_enqueued [of ev_top "tracking_busy\<lparr>processedMessages := {}\<rparr>"
             "''C1''" "\<lambda>t. []"]
          active_thread_event_not_enqueued [of ev_reply tracking_done "''C1''" "\<lambda>t. []"
             "fst (slackEvents ''C1'' (\<lambda>t. []) ev_reply tracking_done)" job_reply]
          k a
    by (simp add: tracking_busy_def tracking_done_def job_reply_def)
qed

section \<open>The regular-expression engine\<close>

inductive_cases m_StrNilE: "matches ci (Str []) p q"
inductive_cases m_StrConsE: "matches ci (Str (c # cs)) p q"
inductive_cases m_OneOfE: "matches ci (OneOf cs) p q"
inductive_cases m_NoneOfE: "matches ci (NoneOf cs) p q"
inductive_cases m_RangeE: "matches ci (Range lo hi) p q"
inductive_cases m_SpaceE: "matches ci Space p q"
inductive_cases m_WordCharE: "matches ci WordChar p q"
inductive_cases m_AnyCharE: "matches ci AnyChar p q"
inductive_cases m_BolE: "matches ci Bol p q"
inductive_cases m_EolE: "matches ci Eol p q"
inductive_cases m_WordBoundaryE: "matches ci WordBoundary p q"
inductive_cases m_SeqE: "matches ci (Seq a b) p q"
inductive_cases m_AltE: "matches ci (Alt a b) p q"
inductive_cases m_PlusE: "matches ci (Plus a) p q"
inductive_cases m_OptE: "matches ci (Opt a) p q"

lemma sufs_self: "p \<in> set (sufs p)"
  by (induction p rule: sufs.induct) simp_all

lemma sufs_length: "length (sufs p) = Suc (length (snd p))"
  by (induction p rule: sufs.induct) simp_all

lemma sufs_rest_le: "q \<in> set (sufs p) \<Longrightarrow> length (snd q) \<le> length (snd p)"
  by (induction p rule: sufs.induct) auto

lemma sufs_distinct: "distinct (sufs p)"
proof (induction p rule: sufs.induct)
  case (1 pv) show ?case by simp
next
  case (2 pv c cs)
  have "(pv, c # cs) \<notin> set (sufs (Some c, cs))"
    using sufs_rest_le [of "(pv, c # cs)" "(Some c, cs)"] by auto
  with 2 show ?case by simp
qed

lemma sufs_trans: "q \<in> set (sufs p) \<Longrightarrow> r \<in> set (sufs q) \<Longrightarrow> r \<in> set (sufs p)"
  by (induction p rule: sufs.induct) auto

lemma stepc_iff: "q \<in> set (stepc P p) \<longleftrightarrow> (\<exists>pv d ds. p = (pv, d # ds) \<and> P d \<and> q = (Some d, ds))"
  by (induction P p rule: stepc.induct) auto

lemma stepc_sufs: "q \<in> set (stepc P p) \<Longrightarrow> q \<in> set (sufs p)"
  by (auto simp add: stepc_iff sufs_self)

lemma lit_sufs: "q \<in> set (lit ci s p) \<Longrightarrow> q \<in> set (sufs p)"
  by (induction ci s p rule: lit.induct) (auto simp add: sufs_self split: if_splits)

lemma lit_iff: "q \<in> set (lit ci s p) \<longleftrightarrow> matches ci (Str s) p q"
proof (induction ci s p rule: lit.induct)
  case (1 ci p) show ?case by (auto intro: m_StrNil elim: m_StrNilE)
next
  case (2 ci c cs pv) show ?case by (auto elim: m_StrConsE)
next
  case (3 ci c cs pv d ds) then show ?case by (auto intro: m_StrCons elim: m_StrConsE)
qed

lemma closure_sound:
  "q \<in> set (closure f n front acc) \<Longrightarrow> set front \<subseteq> set acc \<Longrightarrow>
   \<exists>p\<in>set acc. (p, q) \<in> {(x, y). y \<in> set (f x)}\<^sup>*"
proof (induction n arbitrary: front acc)
  case 0 then show ?case by auto
next
  case (Suc n)
  let ?new = "filter (\<lambda>q. q \<notin> set acc) (remdups (concat (map f front)))"
  show ?case
  proof (cases ?new)
    case Nil
    with Suc.prems show ?thesis by auto
  next
    case (Cons x xs)
    with Suc.prems have "q \<in> set (closure f n ?new (acc @ ?new))" by simp
    then obtain p where p: "p \<in> set (acc @ ?new)" "(p, q) \<in> {(x, y). y \<in> set (f x)}\<^sup>*"
      using Suc.IH [of ?new "acc @ ?new"] by auto
    show ?thesis
    proof (cases "p \<in> set acc")
      case True with p show ?thesis by blast
    next
      case False
      with p(1) obtain x where x: "x \<in> set front" "p \<in> set (f x)" by auto
      then have "(x, p) \<in> {(x, y). y \<in> set (f x)}" by simp
      from this p(2) have "(x, q) \<in> {(x, y). y \<in> set (f x)}\<^sup>*"
        by (rule converse_rtrancl_into_rtrancl)
      with x(1) Suc.prems(2) show ?thesis by blast
    qed
  qed
qed

lemma closure_closed:
  "finite S \<Longrightarrow> set acc \<subseteq> S \<Longrightarrow> (\<forall>x\<in>S. set (f x) \<subseteq> S) \<Longrightarrow> distinct acc \<Longrightarrow>
   card S \<le> length acc + n \<Longrightarrow> set front \<subseteq> set acc \<Longrightarrow>
   (\<forall>x\<in>set acc. x \<notin> set front \<longrightarrow> set (f x) \<subseteq> set acc) \<Longrightarrow>
   set acc \<subseteq> set (closure f n front acc) \<and>
   (\<forall>x\<in>set (closure f n front acc). set (f x) \<subseteq> set (closure f n front acc))"
proof (induction n arbitrary: front acc)
  case 0
  have "card (set acc) = length acc" using 0(4) by (rule distinct_card)
  with 0 have "set acc = S" by (simp add: card_seteq)
  with 0(3) show ?case by simp
next
  case (Suc n)
  let ?new = "filter (\<lambda>q. q \<notin> set acc) (remdups (concat (map f front)))"
  show ?case
  proof (cases ?new)
    case Nil
    then have "\<forall>x\<in>set front. set (f x) \<subseteq> set acc"
      by (auto simp add: filter_empty_conv)
    with Suc.prems(7) Nil show ?thesis by auto
  next
    case (Cons y ys)
    have front_S: "set front \<subseteq> S" using Suc.prems(2,6) by auto
    have 1: "set (acc @ ?new) \<subseteq> S" using Suc.prems(2,3) front_S by auto
    have 2: "distinct (acc @ ?new)" using Suc.prems(4) by auto
    have "length ?new \<ge> 1" using Cons by simp
    then have 3: "card S \<le> length (acc @ ?new) + n" using Suc.prems(5) by simp
    have 4: "set ?new \<subseteq> set (acc @ ?new)" by auto
    have 5: "\<forall>x\<in>set (acc @ ?new). x \<notin> set ?new \<longrightarrow> set (f x) \<subseteq> set (acc @ ?new)"
    proof (intro ballI impI)
      fix x assume "x \<in> set (acc @ ?new)" "x \<notin> set ?new"
      then have xa: "x \<in> set acc" by auto
      show "set (f x) \<subseteq> set (acc @ ?new)"
      proof (cases "x \<in> set front")
        case True then show ?thesis by auto
      next
        case False with xa Suc.prems(7) show ?thesis by auto
      qed
    qed
    have "set (acc @ ?new) \<subseteq> set (closure f n ?new (acc @ ?new)) \<and>
          (\<forall>x\<in>set (closure f n ?new (acc @ ?new)). set (f x) \<subseteq> set (closure f n ?new (acc @ ?new)))"
      using Suc.IH [OF Suc.prems(1) 1 Suc.prems(3) 2 3 4 5] .
    moreover have "closure f (Suc n) front acc = closure f n ?new (acc @ ?new)"
      using Cons by simp
    ultimately show ?thesis by auto
  qed
qed

text \<open>With fuel for every position after \<open>p\<close>, \<open>closure\<close> is the reflexive transitive closure.\<close>

lemma closure_rtrancl:
  assumes "\<And>x y. y \<in> set (f x) \<Longrightarrow> y \<in> set (sufs x)"
  shows "q \<in> set (closure f (length (snd p)) [p] [p]) \<longleftrightarrow> (p, q) \<in> {(x, y). y \<in> set (f x)}\<^sup>*"
proof
  assume "q \<in> set (closure f (length (snd p)) [p] [p])"
  then show "(p, q) \<in> {(x, y). y \<in> set (f x)}\<^sup>*"
    using closure_sound [of q f "length (snd p)" "[p]" "[p]"] by simp
next
  let ?T = "set (closure f (length (snd p)) [p] [p])"
  have "set [p] \<subseteq> ?T \<and> (\<forall>x\<in>?T. set (f x) \<subseteq> ?T)"
  proof (rule closure_closed [where S = "set (sufs p)"])
    show "finite (set (sufs p))" by simp
    show "set [p] \<subseteq> set (sufs p)" by (simp add: sufs_self)
    show "\<forall>x\<in>set (sufs p). set (f x) \<subseteq> set (sufs p)"
      using assms sufs_trans by blast
    show "distinct [p]" by simp
    show "card (set (sufs p)) \<le> length [p] + length (snd p)"
      by (simp add: distinct_card [OF sufs_distinct] sufs_length)
    show "set [p] \<subseteq> set [p]" by simp
    show "\<forall>x\<in>set [p]. x \<notin> set [p] \<longrightarrow> set (f x) \<subseteq> set [p]" by simp
  qed
  then have T: "p \<in> ?T" "\<And>x y. x \<in> ?T \<Longrightarrow> y \<in> set (f x) \<Longrightarrow> y \<in> ?T" by auto
  assume "(p, q) \<in> {(x, y). y \<in> set (f x)}\<^sup>*"
  then show "q \<in> ?T"
    by (induction rule: rtrancl_induct) (auto intro: T)
qed

lemma matches_Star_rtrancl:
  "matches ci (Star a) p q \<longleftrightarrow> (p, q) \<in> {(x, y). matches ci a x y}\<^sup>*"
proof
  assume "matches ci (Star a) p q"
  then show "(p, q) \<in> {(x, y). matches ci a x y}\<^sup>*"
  proof (induction "Star a" p q rule: matches.induct)
    case (m_StarNil p) show ?case by simp
  next
    case (m_StarCons p q r)
    then show ?case by (auto intro: converse_rtrancl_into_rtrancl)
  qed
next
  assume "(p, q) \<in> {(x, y). matches ci a x y}\<^sup>*"
  then show "matches ci (Star a) p q"
    by (induction rule: converse_rtrancl_induct) (auto intro: m_StarNil m_StarCons)
qed

lemma ends_sufs: "q \<in> set (ends ci r p) \<Longrightarrow> q \<in> set (sufs p)"
proof (induction r arbitrary: p q)
  case (Str s) then show ?case by (simp add: lit_sufs)
next
  case (Seq a b)
  from Seq.prems obtain m where "m \<in> set (ends ci a p)" "q \<in> set (ends ci b m)" by auto
  then have "m \<in> set (sufs p)" "q \<in> set (sufs m)" using Seq.IH by blast+
  then show ?case by (rule sufs_trans)
next
  case (Alt a b)
  from Alt.prems have "q \<in> set (ends ci a p) \<or> q \<in> set (ends ci b p)" by simp
  then show ?case using Alt.IH by blast
next
  case (Star a)
  have "(p, q) \<in> {(x, y). y \<in> set (ends ci a x)}\<^sup>*"
    using Star.prems closure_sound [of q "\<lambda>q. ends ci a q" "length (snd p)" "[p]" "[p]"] by simp
  then show ?case
  proof (induction rule: rtrancl_induct)
    case base show ?case by (rule sufs_self)
  next
    case (step y z)
    then have "z \<in> set (sufs y)" using Star.IH by simp
    with step.IH show ?case by (rule sufs_trans)
  qed
next
  case (Plus a)
  from Plus.prems obtain m where m: "m \<in> set (ends ci a p)"
    "q \<in> set (closure (\<lambda>q. ends ci a q) (length (snd m)) [m] [m])" by auto
  have "(m, q) \<in> {(x, y). y \<in> set (ends ci a x)}\<^sup>*"
    using m(2) closure_sound [of q "\<lambda>q. ends ci a q" "length (snd m)" "[m]" "[m]"] by simp
  then have "q \<in> set (sufs m)"
  proof (induction rule: rtrancl_induct)
    case base show ?case by (rule sufs_self)
  next
    case (step y z)
    then have "z \<in> set (sufs y)" using Plus.IH by simp
    with step.IH show ?case by (rule sufs_trans)
  qed
  moreover have "m \<in> set (sufs p)" using m(1) by (rule Plus.IH)
  ultimately show ?case using sufs_trans by blast
next
  case (Opt a)
  from Opt.prems have "q = p \<or> q \<in> set (ends ci a p)"
    by (simp only: ends.simps set_remdups list.set insert_iff)
  then show ?case using Opt.IH sufs_self by blast
qed (auto simp add: stepc_sufs sufs_self split: if_splits)

text \<open>\<open>ends\<close> computes the end positions of the matches.\<close>

lemma ends_iff: "q \<in> set (ends ci r p) \<longleftrightarrow> matches ci r p q"
proof (induction r arbitrary: p q)
  case (Str s) show ?case by (simp add: lit_iff)
next
  case (OneOf cs) show ?case by (auto simp add: stepc_iff intro: m_OneOf elim: m_OneOfE)
next
  case (NoneOf cs) show ?case by (auto simp add: stepc_iff intro: m_NoneOf elim: m_NoneOfE)
next
  case (Range lo hi) show ?case by (auto simp add: stepc_iff intro: m_Range elim: m_RangeE)
next
  case Space show ?case by (auto simp add: stepc_iff intro: m_Space elim: m_SpaceE)
next
  case WordChar show ?case by (auto simp add: stepc_iff intro: m_WordChar elim: m_WordCharE)
next
  case AnyChar show ?case by (auto simp add: stepc_iff intro: m_AnyChar elim: m_AnyCharE)
next
  case Bol show ?case by (cases p) (auto intro: m_Bol elim: m_BolE)
next
  case Eol show ?case by (cases p) (auto intro: m_Eol elim: m_EolE)
next
  case WordBoundary show ?case by (auto intro: m_WordBoundary elim: m_WordBoundaryE)
next
  case (Seq a b)
  have "q \<in> set (ends ci (Seq a b) p) \<longleftrightarrow> (\<exists>m. m \<in> set (ends ci a p) \<and> q \<in> set (ends ci b m))"
    by auto
  also have "\<dots> \<longleftrightarrow> (\<exists>m. matches ci a p m \<and> matches ci b m q)"
    using Seq.IH by simp
  also have "\<dots> \<longleftrightarrow> matches ci (Seq a b) p q"
    by (blast intro: m_Seq elim: m_SeqE)
  finally show ?case .
next
  case (Alt a b)
  have "q \<in> set (ends ci (Alt a b) p) \<longleftrightarrow> q \<in> set (ends ci a p) \<or> q \<in> set (ends ci b p)"
    by simp
  also have "\<dots> \<longleftrightarrow> matches ci a p q \<or> matches ci b p q"
    using Alt.IH by simp
  also have "\<dots> \<longleftrightarrow> matches ci (Alt a b) p q"
    by (blast intro: m_AltL m_AltR elim: m_AltE)
  finally show ?case .
next
  case (Star a)
  have eq: "{(x, y). y \<in> set (ends ci a x)} = {(x, y). matches ci a x y}"
    using Star.IH by auto
  show ?case
    using closure_rtrancl [of "\<lambda>q. ends ci a q" q p] ends_sufs [of _ ci a]
    by (simp add: eq matches_Star_rtrancl)
next
  case (Plus a)
  have eq: "{(x, y). y \<in> set (ends ci a x)} = {(x, y). matches ci a x y}"
    using Plus.IH by auto
  have star: "\<And>m. q \<in> set (closure (\<lambda>q. ends ci a q) (length (snd m)) [m] [m]) \<longleftrightarrow>
                   matches ci (Star a) m q"
    using closure_rtrancl [of "\<lambda>q. ends ci a q" q] ends_sufs [of _ ci a]
    by (simp add: eq matches_Star_rtrancl)
  have "q \<in> set (ends ci (Plus a) p) \<longleftrightarrow>
          (\<exists>m\<in>set (ends ci a p). q \<in> set (closure (\<lambda>q. ends ci a q) (length (snd m)) [m] [m]))"
    by simp
  also have "\<dots> \<longleftrightarrow> (\<exists>m\<in>set (ends ci a p). matches ci (Star a) m q)"
    by (simp only: star)
  also have "\<dots> \<longleftrightarrow> matches ci (Plus a) p q"
    using Plus.IH by (blast intro: m_Plus elim: m_PlusE)
  finally show ?case .
next
  case (Opt a)
  have "q \<in> set (ends ci (Opt a) p) \<longleftrightarrow> q = p \<or> q \<in> set (ends ci a p)"
    by (simp only: ends.simps set_remdups list.set insert_iff)
  also have "\<dots> \<longleftrightarrow> q = p \<or> matches ci a p q"
    using Opt.IH by simp
  also have "\<dots> \<longleftrightarrow> matches ci (Opt a) p q"
    by (blast intro: m_OptNil m_OptOne elim: m_OptE)
  finally show ?case .
qed

lemma search_iff: "search ci r p \<longleftrightarrow> (\<exists>s\<in>set (sufs p). \<exists>q. matches ci r s q)"
proof (induction ci r p rule: search.induct)
  case (1 ci r pv)
  have "ends ci r (pv, []) \<noteq> [] \<longleftrightarrow> (\<exists>q. q \<in> set (ends ci r (pv, [])))"
    by (cases "ends ci r (pv, [])") auto
  then show ?case by (simp add: ends_iff)
next
  case (2 ci r pv c cs)
  have "ends ci r (pv, c # cs) \<noteq> [] \<longleftrightarrow> (\<exists>q. q \<in> set (ends ci r (pv, c # cs)))"
    by (cases "ends ci r (pv, c # cs)") auto
  with 2 show ?case by (auto simp add: ends_iff)
qed

text \<open>
  \<open>test\<close> holds exactly when the pattern matches from some position of the subject.
\<close>

lemma regexTest_iff:
  "regexTest rx s \<longleftrightarrow> (\<exists>p\<in>set (sufs (None, s)). \<exists>q. matches (fst rx) (snd rx) p q)"
  by (simp add: regexTest_def search_iff)

section \<open>Properties of the safety filters\<close>

lemma anyMatches_iff: "anyMatches rxs s \<longleftrightarrow> (\<exists>rx \<in> set rxs. regexTest rx s)"
  by (induction rxs) auto

lemma firstMatch_None_iff:
  "firstMatch rxs s = None \<longleftrightarrow> (\<forall>e \<in> set rxs. \<not> regexTest (fst e) s)"
  by (induction rxs s rule: firstMatch.induct) simp_all

lemma firstMatch_first:
  "rxs = pre @ (rx, t) # post \<Longrightarrow> regexTest rx s \<Longrightarrow>
   \<forall>e \<in> set pre. \<not> regexTest (fst e) s \<Longrightarrow> firstMatch rxs s = Some t"
  by (induction pre arbitrary: rxs) auto

lemma checkBashCommand_allowlisted:
  "\<exists>rx \<in> set ALLOWED_BASH_PATTERNS. regexTest rx (trim command) \<Longrightarrow>
   checkBashCommand command = \<lparr>allowed = True, reason = None, warning = None\<rparr>"
  by (simp add: checkBashCommand_def anyMatches_iff)

lemma checkBashCommand_blocked:
  assumes "\<forall>rx \<in> set ALLOWED_BASH_PATTERNS. \<not> regexTest rx (trim command)"
    and "BLOCKED_BASH_PATTERNS = pre @ (rx, r) # post" and "regexTest rx (trim command)"
    and "\<forall>e \<in> set pre. \<not> regexTest (fst e) (trim command)"
  shows "checkBashCommand command =
           \<lparr>allowed = False, reason = Some (''Blocked: '' @ r), warning = None\<rparr>"
proof -
  have "\<not> anyMatches ALLOWED_BASH_PATTERNS (trim command)"
    using assms(1) by (simp add: anyMatches_iff)
  moreover have "firstMatch BLOCKED_BASH_PATTERNS (trim command) = Some r"
    using assms(2-4) by (rule firstMatch_first)
  ultimately show ?thesis by (simp add: checkBashCommand_def)
qed

lemma checkBashCommand_warned:
  assumes "\<forall>rx \<in> set ALLOWED_BASH_PATTERNS. \<not> regexTest rx (trim command)"
    and "\<forall>e \<in> set BLOCKED_BASH_PATTERNS. \<not> regexTest (fst e) (trim command)"
    and "WARN_BASH_PATTERNS = pre @ (rx, w) # post" and "regexTest rx (trim command)"
    and "\<forall>e \<in> set pre. \<not> regexTest (fst e) (trim command)"
  shows "checkBashCommand command = \<lparr>allowed = True, reason = None, warning = Some w\<rparr>"
proof -
  have "\<not> anyMatches ALLOWED_BASH_PATTERNS (trim command)"
    using assms(1) by (simp add: anyMatches_iff)
  moreover have "firstMatch BLOCKED_BASH_PATTERNS (trim command) = None"
    using assms(2) by (simp add: firstMatch_None_iff)
  moreover have "firstMatch WARN_BASH_PATTERNS (trim command) = Some w"
    using assms(3-5) by (rule firstMatch_first)
  ultimately show ?thesis by (simp add: checkBashCommand_def)
qed

lemma checkBashCommand_default:
  assumes "\<forall>rx \<in> set ALLOWED_BASH_PATTERNS. \<not> regexTest rx (trim command)"
    and "\<forall>e \<in> set BLOCKED_BASH_PATTERNS. \<not> regexTest (fst e) (trim command)"
    and "\<forall>e \<in> set WARN_BASH_PATTERNS. \<not> regexTest (fst e) (trim command)"
  shows "checkBashCommand command = \<lparr>allowed = True, reason = None, warning = None\<rparr>"
proof -
  have "\<not> anyMatches ALLOWED_BASH_PATTERNS (trim command)"
    using assms(1) by (simp add: anyMatches_iff)
  moreover have "firstMatch BLOCKED_BASH_PATTERNS (trim command) = None"
    using assms(2) by (simp add: firstMatch_None_iff)
  moreover have "firstMatch WARN_BASH_PATTERNS (trim command) = None"
    using assms(3) by (simp add: firstMatch_None_iff)
  ultimately show ?thesis by (simp add: checkBashCommand_def)
qed

text \<open>The four commands of the spec, evaluated.\<close>

lemma checkBashCommand_rm_rf_root:
  "checkBashCommand ''rm -rf /'' =
     \<lparr>allowed = False, reason = Some ''Blocked: Recursive delete from root or home'',
      warning = None\<rparr>"
  by code_simp

lemma checkBashCommand_npm_run_build:
  "checkBashCommand ''npm run build'' = \<lparr>allowed = True, reason = None, warning = None\<rparr>"
  by code_simp

lemma checkBashCommand_force_push:
  "checkBashCommand ''git push --force origin main'' =
     \<lparr>allowed = False, reason = Some ''Blocked: Force push'', warning = None\<rparr>"
  by code_simp

lemma checkBashCommand_foobar:
  "checkBashCommand ''foobar --flag'' = \<lparr>allowed = True, reason = None, warning = None\<rparr>"
  by code_simp

text \<open>
  C4.  On the trimmed command: if some allowlist pattern matches, the command is allowed
  with no warning; otherwise, if some deny-list pattern matches, it is denied with
  ``Blocked:'' and the reason of the first entry that matches; otherwise, if some
  warn-list pattern matches, it is allowed with the warning of the first entry that
  matches; otherwise it is allowed.  \<open>rm -rf /\<close> and \<open>git push --force origin main\<close> are
  denied, \<open>npm run build\<close> and \<open>foobar --flag\<close> are allowed.
\<close>

theorem checkBashCommand_evaluation_order:
  "((\<exists>rx \<in> set ALLOWED_BASH_PATTERNS. regexTest rx (trim command)) \<longrightarrow>
      checkBashCommand command = \<lparr>allowed = True, reason = None, warning = None\<rparr>) \<and>
   ((\<forall>rx \<in> set ALLOWED_BASH_PATTERNS. \<not> regexTest rx (trim command)) \<longrightarrow>
      (\<forall>pre rx r post.
         BLOCKED_BASH_PATTERNS = pre @ (rx, r) # post \<and> regexTest rx (trim command) \<and>
         (\<forall>e \<in> set pre. \<not> regexTest (fst e) (trim command)) \<longrightarrow>
         checkBashCommand command =
           \<lparr>allowed = False, reason = Some (''Blocked: '' @ r), warning = None\<rparr>) \<and>
      ((\<forall>e \<in> set BLOCKED_BASH_PATTERNS. \<not> regexTest (fst e) (trim command)) \<longrightarrow>
         (\<forall>pre rx w post.
            WARN_BASH_PATTERNS = pre @ (rx, w) # post \<and> regexTest rx (trim command) \<and>
            (\<forall>e \<in> set pre. \<not> regexTest (fst e) (trim command)) \<longrightarrow>
            checkBashCommand command = \<lparr>allowed = True, reason = None, warning = Some w\<rparr>) \<and>
         ((\<forall>e \<in> set WARN_BASH_PATTERNS. \<not> regexTest (fst e) (trim command)) \<longrightarrow>
            checkBashCommand command = \<lparr>allowed = True, reason = None, warning = None\<rparr>))) \<and>
   \<not> allowed (checkBashCommand ''rm -rf /'') \<and>
   checkBashCommand ''npm run build'' = \<lparr>allowed = True, reason = None, warning = None\<rparr> \<and>
   checkBashCommand ''git push --force origin main'' =
     \<lparr>allowed = False, reason = Some ''Blocked: Force push'', warning = None\<rparr> \<and>
   checkBashCommand ''foobar --flag'' = \<lparr>allowed = True, reason = None, warning = None\<rparr>"
proof -
  have rm: "\<not> allowed (checkBashCommand ''rm -rf /'')"
    by (simp add: checkBashCommand_rm_rf_root)
  show ?thesis
    using checkBashCommand_allowlisted [of command] checkBashCommand_blocked [of command]
      checkBashCommand_warned [of command] checkBashCommand_default [of command]
      rm checkBashCommand_npm_run_build checkBashCommand_force_push checkBashCommand_foobar
    by blast
qed

text \<open>The premises of the four cases, at one command for each.\<close>

lemma npm_run_build_allowlisted:
  "\<exists>rx \<in> set ALLOWED_BASH_PATTERNS. regexTest rx (trim ''npm run build'')"
proof -
  have "anyMatches ALLOWED_BASH_PATTERNS (trim ''npm run build'')" by code_simp
  then show ?thesis by (simp only: anyMatches_iff)
qed

lemma force_push_not_allowlisted:
  "\<forall>rx \<in> set ALLOWED_BASH_PATTERNS. \<not> regexTest rx (trim ''git push --force origin main'')"
proof -
  have "\<not> anyMatches ALLOWED_BASH_PATTERNS (trim ''git push --force origin main'')"
    by code_simp
  then show ?thesis by (simp only: anyMatches_iff) blast
qed

lemma force_push_first_blocked:
  "BLOCKED_BASH_PATTERNS =
     take 11 BLOCKED_BASH_PATTERNS @
     (fst (BLOCKED_BASH_PATTERNS ! 11), ''Force push'') # drop 12 BLOCKED_BASH_PATTERNS"
  "regexTest (fst (BLOCKED_BASH_PATTERNS ! 11)) (trim ''git push --force origin main'')"
  "\<forall>e \<in> set (take 11 BLOCKED_BASH_PATTERNS).
     \<not> regexTest (fst e) (trim ''git push --force origin main'')"
proof -
  show "BLOCKED_BASH_PATTERNS =
     take 11 BLOCKED_BASH_PATTERNS @
     (fst (BLOCKED_BASH_PATTERNS ! 11), ''Force push'') # drop 12 BLOCKED_BASH_PATTERNS"
    by code_simp
  show "regexTest (fst (BLOCKED_BASH_PATTERNS ! 11)) (trim ''git push --force origin main'')"
    by code_simp
  have "firstMatch (take 11 BLOCKED_BASH_PATTERNS) (trim ''git push --force origin main'') = None"
    by code_simp
  then show "\<forall>e \<in> set (take 11 BLOCKED_BASH_PATTERNS).
     \<not> regexTest (fst e) (trim ''git push --force origin main'')"
    by (simp only: firstMatch_None_iff)
qed

lemma foobar_matches_nothing:
  "\<forall>rx \<in> set ALLOWED_BASH_PATTERNS. \<not> regexTest rx (trim ''foobar --flag'')"
  "\<forall>e \<in> set BLOCKED_BASH_PATTERNS. \<not> regexTest (fst e) (trim ''foobar --flag'')"
  "\<forall>e \<in> set WARN_BASH_PATTERNS. \<not> regexTest (fst e) (trim ''foobar --flag'')"
proof -
  have "\<not> anyMatches ALLOWED_BASH_PATTERNS (trim ''foobar --flag'')" by code_simp
  then show "\<forall>rx \<in> set ALLOWED_BASH_PATTERNS. \<not> regexTest rx (trim ''foobar --flag'')"
    by (simp only: anyMatches_iff) blast
  have "firstMatch BLOCKED_BASH_PATTERNS (trim ''foobar --flag'') = None" by code_simp
  then show "\<forall>e \<in> set BLOCKED_BASH_PATTERNS. \<not> regexTest (fst e) (trim ''foobar --flag'')"
    by (simp only: firstMatch_None_iff)
  have "firstMatch WARN_BASH_PATTERNS (trim ''foobar --flag'') = None" by code_simp
  then show "\<forall>e \<in> set WARN_BASH_PATTERNS. \<not> regexTest (fst e) (trim ''foobar --flag'')"
    by (simp only: firstMatch_None_iff)
qed

theorem checkBashCommand_evaluation_order_witness:
  "checkBashCommand ''npm run build'' = \<lparr>allowed = True, reason = None, warning = None\<rparr> \<and>
   checkBashCommand ''git push --force origin main'' =
     \<lparr>allowed = False, reason = Some ''Blocked: Force push'', warning = None\<rparr> \<and>
   checkBashCommand ''foobar --flag'' = \<lparr>allowed = True, reason = None, warning = None\<rparr>"
proof -
  note a = checkBashCommand_evaluation_order [of "''npm run build''"]
  note b = checkBashCommand_evaluation_order [of "''git push --force origin main''"]
  note c = checkBashCommand_evaluation_order [of "''foobar --flag''"]
  have 1: "checkBashCommand ''npm run build'' = \<lparr>allowed = True, reason = None, warning = None\<rparr>"
    using a npm_run_build_allowlisted by blast
  have 2: "checkBashCommand ''git push --force origin main'' =
     \<lparr>allowed = False, reason = Some (''Blocked: '' @ ''Force push''), warning = None\<rparr>"
    using b force_push_not_allowlisted force_push_first_blocked by blast
  have 3: "checkBashCommand ''foobar --flag'' = \<lparr>allowed = True, reason = None, warning = None\<rparr>"
    using c foobar_matches_nothing by blast
  from 1 2 3 show ?thesis by simp
qed

text \<open>
  C10.  The command \<open>npm run build && rm -rf /\<close> matches the first allowlist pattern and
  the first deny-list pattern, and \<open>checkBashCommand\<close> allows it with no warning.  In
  general a command that some allowlist pattern matches is allowed with no warning,
  whatever the deny list and the warn list match.
\<close>

theorem allowlisted_prefix_hides_destructive_suffix:
  "regexTest (ALLOWED_BASH_PATTERNS ! 0) (trim ''npm run build && rm -rf /'') \<and>
   regexTest (fst (BLOCKED_BASH_PATTERNS ! 0)) (trim ''npm run build && rm -rf /'') \<and>
   snd (BLOCKED_BASH_PATTERNS ! 0) = ''Recursive delete from root or home'' \<and>
   checkBashCommand ''npm run build && rm -rf /'' =
     \<lparr>allowed = True, reason = None, warning = None\<rparr> \<and>
   (\<forall>command.
      (\<exists>rx \<in> set ALLOWED_BASH_PATTERNS. regexTest rx (trim command)) \<and>
      (\<exists>e \<in> set (BLOCKED_BASH_PATTERNS @ WARN_BASH_PATTERNS). regexTest (fst e) (trim command)) \<longrightarrow>
      checkBashCommand command = \<lparr>allowed = True, reason = None, warning = None\<rparr>)"
proof -
  have 1: "regexTest (ALLOWED_BASH_PATTERNS ! 0) (trim ''npm run build && rm -rf /'')"
    by code_simp
  have 2: "regexTest (fst (BLOCKED_BASH_PATTERNS ! 0)) (trim ''npm run build && rm -rf /'')"
    by code_simp
  have 3: "snd (BLOCKED_BASH_PATTERNS ! 0) = ''Recursive delete from root or home''"
    by code_simp
  have 4: "checkBashCommand ''npm run build && rm -rf /'' =
     \<lparr>allowed = True, reason = None, warning = None\<rparr>"
    by code_simp
  from 1 2 3 4 show ?thesis using checkBashCommand_allowlisted by blast
qed

theorem allowlisted_prefix_witness:
  "checkBashCommand ''npm run build && rm -rf /'' =
     \<lparr>allowed = True, reason = None, warning = None\<rparr> \<and>
   regexTest (ALLOWED_BASH_PATTERNS ! 0) (trim ''npm run build && rm -rf /'') \<and>
   regexTest (fst (BLOCKED_BASH_PATTERNS ! 0)) (trim ''npm run build && rm -rf /'')"
proof -
  note t = allowlisted_prefix_hides_destructive_suffix
  have a: "ALLOWED_BASH_PATTERNS ! 0 \<in> set ALLOWED_BASH_PATTERNS"
    by (simp add: ALLOWED_BASH_PATTERNS_def)
  have b: "BLOCKED_BASH_PATTERNS ! 0 \<in> set (BLOCKED_BASH_PATTERNS @ WARN_BASH_PATTERNS)"
    by (simp add: BLOCKED_BASH_PATTERNS_def)
  from t have g: "\<forall>command.
      (\<exists>rx \<in> set ALLOWED_BASH_PATTERNS. regexTest rx (trim command)) \<and>
      (\<exists>e \<in> set (BLOCKED_BASH_PATTERNS @ WARN_BASH_PATTERNS). regexTest (fst e) (trim command)) \<longrightarrow>
      checkBashCommand command = \<lparr>allowed = True, reason = None, warning = None\<rparr>"
    by blast
  from t have m: "regexTest (ALLOWED_BASH_PATTERNS ! 0) (trim ''npm run build && rm -rf /'')"
      "regexTest (fst (BLOCKED_BASH_PATTERNS ! 0)) (trim ''npm run build && rm -rf /'')"
    by blast+
  from g a b m have "checkBashCommand ''npm run build && rm -rf /'' =
     \<lparr>allowed = True, reason = None, warning = None\<rparr>"
    by blast
  with m show ?thesis by simp
qed

text \<open>What \<open>checkFilePath\<close> decides, in the order of its checks.\<close>

lemma checkFilePath_order:
  "checkFilePath cwd filePath repoPath =
     (if \<not> startsWith
             (resolve cwd (if isAbsolute (normalize filePath) then normalize filePath
                           else join repoPath (normalize filePath)))
             (resolve cwd repoPath)
      then \<lparr>allowed = False, reason = Some ''Path outside repository'', warning = None\<rparr>
      else case firstMatch PROTECTED_FILE_PATTERNS (normalize filePath) of
             Some r \<Rightarrow>
               \<lparr>allowed = False, reason = Some (''Protected file: '' @ r), warning = None\<rparr>
           | None \<Rightarrow>
               (case firstMatch SENSITIVE_FILE_PATTERNS (normalize filePath) of
                  Some w \<Rightarrow> \<lparr>allowed = True, reason = None, warning = Some w\<rparr>
                | None \<Rightarrow> \<lparr>allowed = True, reason = None, warning = None\<rparr>))"
  by (simp add: checkFilePath_def Let_def)

text \<open>
  C3.  With the repository at \<open>/tmp/claude-autofix-repos/app\<close>, the three paths of the
  spec are judged as it says.  The path \<open>../app-old/index.ts\<close> resolves to
  \<open>/tmp/claude-autofix-repos/app-old/index.ts\<close>, which does not lie within the
  repository, and \<open>checkFilePath\<close> allows it: the guard compares the two resolved paths
  as strings, and the repository's path is a prefix of its sibling's.
\<close>

theorem checkFilePath_allows_sibling_directory:
  "checkFilePath ''/app'' ''../../etc/passwd'' ''/tmp/claude-autofix-repos/app'' =
     \<lparr>allowed = False, reason = Some ''Path outside repository'', warning = None\<rparr> \<and>
   checkFilePath ''/app'' ''.env.production'' ''/tmp/claude-autofix-repos/app'' =
     \<lparr>allowed = False, reason = Some ''Protected file: Environment file'', warning = None\<rparr> \<and>
   checkFilePath ''/app'' ''package.json'' ''/tmp/claude-autofix-repos/app'' =
     \<lparr>allowed = True, reason = None,
      warning = Some ''Package manifest - dependencies may change''\<rparr> \<and>
   resolve ''/app'' (join ''/tmp/claude-autofix-repos/app'' (normalize ''../app-old/index.ts'')) =
     ''/tmp/claude-autofix-repos/app-old/index.ts'' \<and>
   resolve ''/app'' ''/tmp/claude-autofix-repos/app'' = ''/tmp/claude-autofix-repos/app'' \<and>
   \<not> spec_liesWithin ''/tmp/claude-autofix-repos/app-old/index.ts''
        ''/tmp/claude-autofix-repos/app'' \<and>
   checkFilePath ''/app'' ''../app-old/index.ts'' ''/tmp/claude-autofix-repos/app'' =
     \<lparr>allowed = True, reason = None, warning = None\<rparr>"
proof (intro conjI)
  show "checkFilePath ''/app'' ''../../etc/passwd'' ''/tmp/claude-autofix-repos/app'' =
     \<lparr>allowed = False, reason = Some ''Path outside repository'', warning = None\<rparr>"
    by code_simp
  show "checkFilePath ''/app'' ''.env.production'' ''/tmp/claude-autofix-repos/app'' =
     \<lparr>allowed = False, reason = Some ''Protected file: Environment file'', warning = None\<rparr>"
    by code_simp
  show "checkFilePath ''/app'' ''package.json'' ''/tmp/claude-autofix-repos/app'' =
     \<lparr>allowed = True, reason = None,
      warning = Some ''Package manifest - dependencies may change''\<rparr>"
    by code_simp
  show "resolve ''/app'' (join ''/tmp/claude-autofix-repos/app'' (normalize ''../app-old/index.ts'')) =
     ''/tmp/claude-autofix-repos/app-old/index.ts''"
    by code_simp
  show "resolve ''/app'' ''/tmp/claude-autofix-repos/app'' = ''/tmp/claude-autofix-repos/app''"
    by code_simp
  show "\<not> spec_liesWithin ''/tmp/claude-autofix-repos/app-old/index.ts''
        ''/tmp/claude-autofix-repos/app''"
    by code_simp
  show "checkFilePath ''/app'' ''../app-old/index.ts'' ''/tmp/claude-autofix-repos/app'' =
     \<lparr>allowed = True, reason = None, warning = None\<rparr>"
    by code_simp
qed

section \<open>The steps of the pipeline, one by one\<close>

text \<open>
  Each property of \<open>processIssue\<close> below is proved step by step: a condition on the state
  before a step gives the property of what the \<open>try\<close> block returns from that step on.
\<close>

lemmas aux_defs = upd_def called_def cleared_def marked_def Let_def clearActiveThread_def markThreadCompleted_def failedResult_def

lemma noFailureYet_called:
  "noFailureYet w st \<Longrightarrow> \<not> stageFailed w c \<Longrightarrow> \<not> prCreationFailed w c \<Longrightarrow> noFailureYet w (called c st)"
  by (simp add: noFailureYet_def called_def)

lemma tryBlockPost_Throws:
  "noFailureYet w st \<Longrightarrow> tryBlockPost w job (Throws m, st)"
  by (simp add: tryBlockPost_def noFailureYet_def list_ex_iff list_all_iff)

lemma tryBlockPost_step10: "noFailureYet w st \<Longrightarrow> tryBlockPost w job (step10 w job b p n fs d st)"
  by (simp add: step10_def tryBlockPost_def noFailureYet_def aux_defs list_ex_iff list_all_iff split: outcome.split)

lemma tryBlockPost_step9: "noFailureYet w st \<Longrightarrow> tryBlockPost w job (step9 w job b p n fs st)"
  unfolding step9_def upd_def
  by (simp add: tryBlockPost_step10 noFailureYet_called tryBlockPost_Throws split: outcome.split)

lemma tryBlockPost_step8: "noFailureYet w st \<Longrightarrow> tryBlockPost w job (step8 w job b p n fs st)"
  unfolding step8_def upd_def
  by (auto simp add: tryBlockPost_step9 noFailureYet_called tryBlockPost_Throws split: outcome.split)
    (simp_all add: tryBlockPost_def noFailureYet_def called_def list_ex_iff list_all_iff prError_def)

lemma tryBlockPost_step7: "noFailureYet w st \<Longrightarrow> tryBlockPost w job (step7 w job b p n fs st)"
  unfolding step7_def upd_def
  by (auto simp add: tryBlockPost_step8 noFailureYet_called tryBlockPost_Throws split: outcome.split)
    (simp_all add: tryBlockPost_def noFailureYet_def aux_defs list_ex_iff list_all_iff)

lemma tryBlockPost_step6: "noFailureYet w st \<Longrightarrow> tryBlockPost w job (step6 w job b p n fs st)"
  unfolding step6_def upd_def
  by (auto simp add: tryBlockPost_step7 noFailureYet_called tryBlockPost_Throws split: outcome.split)
    (simp_all add: tryBlockPost_def noFailureYet_def aux_defs list_ex_iff list_all_iff)

lemma tryBlockPost_step5: "noFailureYet w st \<Longrightarrow> tryBlockPost w job (step5 w job bo p n fs st)"
  unfolding step5_def upd_def
  by (auto simp add: tryBlockPost_step6 noFailureYet_called tryBlockPost_Throws Let_def split: outcome.split)
    (simp_all add: tryBlockPost_def noFailureYet_def aux_defs list_ex_iff list_all_iff)

lemma tryBlockPost_step4: "noFailureYet w st \<Longrightarrow> tryBlockPost w job (step4 w job bo p n a st)"
  unfolding step4_def upd_def
  by (auto simp add: tryBlockPost_step5 noFailureYet_called tryBlockPost_Throws Let_def split: outcome.split)
    (simp_all add: tryBlockPost_def noFailureYet_def aux_defs list_ex_iff list_all_iff)

lemma tryBlockPost_step4_agent_failed:
  "noFailureYet w st \<Longrightarrow> \<not> ag_success a \<Longrightarrow> tryBlockPost w job (step4 w job bo p n a (called AnalyzeAndFix st))"
  unfolding step4_def upd_def
  by (auto simp add: Let_def split: outcome.split)
    (simp_all add: tryBlockPost_def noFailureYet_def aux_defs list_ex_iff list_all_iff)

lemma tryBlockPost_runAgent: "noFailureYet w st \<Longrightarrow> tryBlockPost w job (runAgent w job bo p n st)"
proof (cases "analyzeAndFix w")
  case (Throws m)
  assume "noFailureYet w st"
  then show ?thesis
    using Throws by (simp add: runAgent_def noFailureYet_called tryBlockPost_Throws)
next
  case (Returns a)
  assume pre: "noFailureYet w st"
  show ?thesis
  proof (cases "ag_success a")
    case True
    with pre Returns have "noFailureYet w (called AnalyzeAndFix st)"
      by (simp add: noFailureYet_called)
    then show ?thesis using Returns by (simp add: runAgent_def tryBlockPost_step4)
  next
    case False
    with pre Returns show ?thesis by (simp add: runAgent_def tryBlockPost_step4_agent_failed)
  qed
qed

lemma tryBlockPost_step3: "noFailureYet w st \<Longrightarrow> tryBlockPost w job (step3 w job bo p n st)"
  unfolding step3_def upd_def
  by (auto simp add: tryBlockPost_runAgent noFailureYet_called tryBlockPost_Throws split: outcome.split)
    (simp_all add: tryBlockPost_def noFailureYet_def aux_defs list_ex_iff list_all_iff)

lemma tryBlockPost_step2_5: "noFailureYet w st \<Longrightarrow> tryBlockPost w job (step2_5 w job bo p n st)"
  unfolding step2_5_def
  by (auto simp add: tryBlockPost_step3 noFailureYet_called tryBlockPost_Throws split: outcome.split option.split list.split)

lemma tryBlockPost_step2: "noFailureYet w st \<Longrightarrow> tryBlockPost w job (step2 w job bo p n st)"
  unfolding step2_def
  by (auto simp add: tryBlockPost_step2_5 noFailureYet_called tryBlockPost_Throws Let_def split: outcome.split)

lemma noFailureYet_prContext:
  "noFailureYet w st \<Longrightarrow>
   noFailureYet w
     (st\<lparr>calls := calls st @ UpdateSlackStatus # GetPullRequest r # map GetPullRequest rs\<rparr>)"
  by (simp add: noFailureYet_def list_all_iff) auto

lemma tryBlockPost_step1_5: "noFailureYet w st \<Longrightarrow> tryBlockPost w job (step1_5 w job bo p n st)"
  unfolding step1_5_def
  by (simp add: tryBlockPost_step2 noFailureYet_prContext split: option.split list.split)

lemma tryBlockPost_start:
  "tryBlockPost w job
     (step1_5 w job bo p n \<lparr>trk = t, calls = [AddReaction ''eyes'', PostMessage P_Initial]\<rparr>)"
  by (rule tryBlockPost_step1_5) (simp add: noFailureYet_def)

lemma catchBlock_releases:
  "threadTs job \<notin> activeThreads (trk (snd (catchBlock w job ts m st)))"
  by (simp add: catchBlock_def aux_defs split: outcome.split)

lemma catchBlock_result:
  "(case fst (catchBlock w job ts m st) of
      Returns r \<Rightarrow> res_status r = failed
    | Throws m' \<Rightarrow> (\<exists>m1. updateMessage w U_SystemError = Throws m1) \<and>
                   postMessage w P_CriticalError = Throws m')"
  by (simp add: catchBlock_def aux_defs split: outcome.split)

lemma catchBlock_calls:
  "list_ex (stageFailed w) (calls (snd (catchBlock w job ts m st))) = list_ex (stageFailed w) (calls st)"
  "list_ex (prCreationFailed w) (calls (snd (catchBlock w job ts m st))) = list_ex (prCreationFailed w) (calls st)"
  by (simp_all add: catchBlock_def aux_defs split: outcome.split)

lemma noChangesPre_called:
  "noChangesPre t0 st \<Longrightarrow> \<not> isRepoMutation c \<Longrightarrow> c \<noteq> GetStatus \<Longrightarrow> noChangesPre t0 (called c st)"
  by (simp add: noChangesPre_def called_def)

lemma noChangesPost_Throws:
  "noChangesPre t0 st \<Longrightarrow> noChangesPost w job a t0 (Throws m, st)"
  by (auto simp add: noChangesPost_def noChangesPre_def list_all_iff list_ex_iff)

lemma noChangesPost_step4:
  assumes "ag_success a" "getStatus w = Returns g" "modified g = []" "created g = []" "not_added g = []"
  shows "noChangesPre t0 st \<Longrightarrow> noChangesPost w job a t0 (step4 w job bo p n a st)"
  using assms unfolding step4_def upd_def
  by (auto simp add: noChangesPost_def noChangesPre_def noChangesResult_def called_def marked_def
        list_all_iff list_ex_iff split: outcome.split)

lemma noChangesPost_runAgent:
  assumes "analyzeAndFix w = Returns a" "ag_success a" "getStatus w = Returns g" "modified g = []" "created g = []" "not_added g = []"
  shows "noChangesPre t0 st \<Longrightarrow> noChangesPost w job a t0 (runAgent w job bo p n st)"
  using assms unfolding runAgent_def
  by (simp add: noChangesPost_step4 noChangesPre_called)

lemma noChangesPost_step3:
  assumes "analyzeAndFix w = Returns a" "ag_success a" "getStatus w = Returns g" "modified g = []" "created g = []" "not_added g = []"
  shows "noChangesPre t0 st \<Longrightarrow> noChangesPost w job a t0 (step3 w job bo p n st)"
  unfolding step3_def upd_def
  by (auto simp add: noChangesPost_runAgent [OF assms] noChangesPre_called noChangesPost_Throws split: outcome.split)
     (auto simp add: noChangesPost_def noChangesPre_def aux_defs list_all_iff list_ex_iff)

lemma noChangesPost_step2_5:
  assumes "analyzeAndFix w = Returns a" "ag_success a" "getStatus w = Returns g" "modified g = []" "created g = []" "not_added g = []"
  shows "noChangesPre t0 st \<Longrightarrow> noChangesPost w job a t0 (step2_5 w job bo p n st)"
  unfolding step2_5_def
  by (auto simp add: noChangesPost_step3 [OF assms] noChangesPre_called noChangesPost_Throws split: outcome.split option.split list.split)

lemma noChangesPost_step2:
  assumes "analyzeAndFix w = Returns a" "ag_success a" "getStatus w = Returns g" "modified g = []" "created g = []" "not_added g = []"
  shows "noChangesPre t0 st \<Longrightarrow> noChangesPost w job a t0 (step2 w job bo p n st)"
  unfolding step2_def
  by (auto simp add: noChangesPost_step2_5 [OF assms] noChangesPre_called noChangesPost_Throws Let_def split: outcome.split)

lemma noChangesPre_prContext:
  "noChangesPre t0 st \<Longrightarrow>
   noChangesPre t0
     (st\<lparr>calls := calls st @ UpdateSlackStatus # GetPullRequest r # map GetPullRequest rs\<rparr>)"
  by (simp add: noChangesPre_def list_all_iff) auto

lemma noChangesPost_step1_5:
  assumes "analyzeAndFix w = Returns a" "ag_success a" "getStatus w = Returns g" "modified g = []" "created g = []" "not_added g = []"
  shows "noChangesPre t0 st \<Longrightarrow> noChangesPost w job a t0 (step1_5 w job bo p n st)"
  unfolding step1_5_def
  by (simp add: noChangesPost_step2 [OF assms] noChangesPre_prContext split: option.split list.split)

lemma spreadSet_set: "set (spreadSet seen xs) = set seen \<union> set xs"
  by (induction xs arbitrary: seen) auto

lemma spreadSet_distinct: "distinct seen \<Longrightarrow> distinct (spreadSet seen xs)"
  by (induction xs arbitrary: seen) auto

lemma catchBlock_calls_all:
  "P (UpdateMessage U_SystemError) \<Longrightarrow> P (PostMessage P_CriticalError) \<Longrightarrow>
   list_all P (calls (snd (catchBlock w job ts m st))) = list_all P (calls st)"
  by (simp add: catchBlock_def aux_defs split: outcome.split)

lemma catchBlock_calls_ex:
  "\<not> P (UpdateMessage U_SystemError) \<Longrightarrow> \<not> P (PostMessage P_CriticalError) \<Longrightarrow>
   list_ex P (calls (snd (catchBlock w job ts m st))) = list_ex P (calls st)"
  by (simp add: catchBlock_def aux_defs split: outcome.split)

lemma branchPre_called:
  "branchPre t0 reuse branch st \<Longrightarrow> onBranch reuse branch c \<Longrightarrow> branchPre t0 reuse branch (called c st)"
  by (simp add: branchPre_def called_def)

lemma branchPost_Throws:
  "branchPre t0 reuse branch st \<Longrightarrow> branchPost job t0 reuse branch files (Throws m, st)"
  by (simp add: branchPost_def branchPre_def)

lemma branchPost_step10:
  "branchPre t0 reuse branch st \<Longrightarrow>
   branchPost job t0 reuse branch files (step10 w job branch p n files d st)"
  unfolding step10_def upd_def
  by (auto simp add: branchPost_def branchPre_def storedContext_def aux_defs split: outcome.split)

lemma branchPost_step9:
  "branchPre t0 reuse branch st \<Longrightarrow>
   branchPost job t0 reuse branch files (step9 w job branch p n files st)"
  unfolding step9_def upd_def
  by (simp add: branchPost_step10 branchPre_called branchPost_Throws split: outcome.split)

lemma branchPost_step8:
  "branchPre t0 reuse branch st \<Longrightarrow>
   branchPost job t0 reuse branch files (step8 w job branch p n files st)"
  unfolding step8_def upd_def
  by (auto simp add: branchPost_step9 branchPre_called branchPost_Throws split: outcome.split)
     (simp_all add: branchPost_def branchPre_def called_def)

lemma branchPost_step7:
  "branchPre t0 reuse branch st \<Longrightarrow>
   branchPost job t0 reuse branch files (step7 w job branch p n files st)"
  unfolding step7_def upd_def
  by (auto simp add: branchPost_step8 branchPre_called branchPost_Throws split: outcome.split)
     (simp_all add: branchPost_def branchPre_def aux_defs)

lemma branchPost_step6:
  "branchPre t0 reuse branch st \<Longrightarrow>
   branchPost job t0 reuse branch files (step6 w job branch p n files st)"
  unfolding step6_def upd_def
  by (auto simp add: branchPost_step7 branchPre_called branchPost_Throws split: outcome.split)
     (simp_all add: branchPost_def branchPre_def aux_defs)

lemma truthy_the: "truthy bo \<Longrightarrow> (case bo of Some name \<Rightarrow> name | None \<Rightarrow> []) = the bo"
  by (cases bo) simp_all

lemma branchPost_step5:
  assumes pre: "branchPre t0 (truthy bo) (branchAtStep5 w bo) st"
  shows "branchPost job t0 (truthy bo) (branchAtStep5 w bo) files (step5 w job bo p n files st)"
proof (cases "truthy bo")
  case True
  then have b: "branchAtStep5 w bo = the bo" by (simp add: branchAtStep5_def)
  show ?thesis
    using pre True unfolding b step5_def upd_def
    by (simp add: branchPost_step6 branchPre_called branchPost_Throws split: outcome.split)
next
  case False
  show ?thesis
  proof (cases "createBranch w")
    case (Throws m)
    with pre False show ?thesis
      unfolding step5_def upd_def
      by (simp add: branchPre_called branchPost_Throws Let_def split: outcome.split)
  next
    case (Returns br)
    show ?thesis
    proof (cases "gb_success br \<and> truthy (gb_branchName br)")
      case True
      with Returns False have b: "branchAtStep5 w bo = the (gb_branchName br)"
        by (simp add: branchAtStep5_def truthy_the)
      show ?thesis
        using pre False Returns True unfolding b step5_def upd_def
        by (simp add: branchPost_step6 branchPre_called branchPost_Throws Let_def split: outcome.split)
    next
      case no: False
      with pre False Returns show ?thesis
        unfolding step5_def upd_def
        by (auto simp add: branchPre_called branchPost_Throws Let_def split: outcome.split)
           (auto simp add: branchPost_def branchPre_def aux_defs)
    qed
  qed
qed

lemma branchPost_step4:
  "branchPre t0 (truthy bo) (branchAtStep5 w bo) st \<Longrightarrow>
   branchPost job t0 (truthy bo) (branchAtStep5 w bo) (filesOf w) (step4 w job bo p n a st)"
  unfolding step4_def upd_def
  by (auto simp add: branchPost_step5 branchPre_called branchPost_Throws Let_def filesOf_def split: outcome.split)
     (auto simp add: branchPost_def branchPre_def aux_defs)

lemma branchPost_runAgent:
  "branchPre t0 (truthy bo) (branchAtStep5 w bo) st \<Longrightarrow>
   branchPost job t0 (truthy bo) (branchAtStep5 w bo) (filesOf w) (runAgent w job bo p n st)"
  unfolding runAgent_def
  by (simp add: branchPost_step4 branchPre_called branchPost_Throws split: outcome.split)

lemma branchPost_step3:
  "branchPre t0 (truthy bo) (branchAtStep5 w bo) st \<Longrightarrow>
   branchPost job t0 (truthy bo) (branchAtStep5 w bo) (filesOf w) (step3 w job bo p n st)"
  unfolding step3_def upd_def
  by (auto simp add: branchPost_runAgent branchPre_called branchPost_Throws split: outcome.split)
     (auto simp add: branchPost_def branchPre_def aux_defs)

lemma branchPost_step2_5:
  "branchPre t0 (truthy bo) (branchAtStep5 w bo) st \<Longrightarrow>
   branchPost job t0 (truthy bo) (branchAtStep5 w bo) (filesOf w) (step2_5 w job bo p n st)"
  unfolding step2_5_def
  by (auto simp add: branchPost_step3 branchPre_called branchPost_Throws split: outcome.split option.split list.split)

lemma branchPost_step2:
  assumes pre: "branchPre t0 (truthy (branchAfterCheckout w job bo))
                  (branchAtStep5 w (branchAfterCheckout w job bo)) st"
  shows "branchPost job t0 (truthy (branchAfterCheckout w job bo))
           (branchAtStep5 w (branchAfterCheckout w job bo)) (filesOf w) (step2 w job bo p n st)"
proof (cases "initializeRepo w")
  case (Throws m)
  with pre show ?thesis
    by (simp add: step2_def branchPre_called branchPost_Throws)
next
  case init: (Returns u)
  show ?thesis
  proof (cases "isFollowUp job = Some True \<and> truthy bo")
    case False
    then have b: "branchAfterCheckout w job bo = bo" by (auto simp add: branchAfterCheckout_def)
    show ?thesis
      using pre init False unfolding b step2_def
      by (auto simp add: branchPost_step2_5 branchPre_called Let_def)
  next
    case True
    show ?thesis
    proof (cases "checkoutExistingBranch w")
      case (Throws m)
      with pre init True show ?thesis
        by (simp add: step2_def branchPre_called branchPost_Throws Let_def)
    next
      case (Returns co)
      define bo' where "bo' = (if \<not> gb_success co then None else bo)"
      have b: "branchAfterCheckout w job bo = bo'"
        using True Returns by (simp add: branchAfterCheckout_def bo'_def)
      have s: "step2 w job bo p n st =
                 step2_5 w job bo' p n
                   (called (CheckoutExistingBranch (the bo))
                      (called UpdateSlackStatus (called InitializeRepo (called UpdateSlackStatus st))))"
        using init True Returns by (simp add: step2_def Let_def bo'_def)
      show ?thesis
        using pre unfolding b s by (simp add: branchPost_step2_5 branchPre_called)
    qed
  qed
qed

lemma branchPre_prContext:
  "branchPre t0 reuse branch st \<Longrightarrow>
   branchPre t0 reuse branch
     (st\<lparr>calls := calls st @ UpdateSlackStatus # GetPullRequest r # map GetPullRequest rs\<rparr>)"
  by (simp add: branchPre_def list_all_iff) auto

lemma branchPost_step1_5:
  "branchPre t0 (truthy (branchAfterCheckout w job bo)) (branchAtStep5 w (branchAfterCheckout w job bo)) st \<Longrightarrow>
   branchPost job t0 (truthy (branchAfterCheckout w job bo)) (branchAtStep5 w (branchAfterCheckout w job bo))
     (filesOf w) (step1_5 w job bo p n st)"
  unfolding step1_5_def
  by (simp add: branchPost_step2 branchPre_prContext split: option.split list.split)

text \<open>How \<open>processIssue\<close> ends: in the \<open>catch\<close> block or with the result of the \<open>try\<close> block.\<close>

lemma processIssue_cases:
  obtains (no_status) m where "postMessage w P_Initial = Throws m"
      "processIssue w job t =
         catchBlock w job None m \<lparr>trk = t, calls = [AddReaction ''eyes'', PostMessage P_Initial]\<rparr>"
  | (returned) ts p n r st' where "postMessage w P_Initial = Returns ts"
      "step1_5 w job (reusedBranch job) p n
         \<lparr>trk = t, calls = [AddReaction ''eyes'', PostMessage P_Initial]\<rparr> = (Returns r, st')"
      "processIssue w job t = (Returns r, st')"
  | (caught) ts p n m st' where "postMessage w P_Initial = Returns ts"
      "step1_5 w job (reusedBranch job) p n
         \<lparr>trk = t, calls = [AddReaction ''eyes'', PostMessage P_Initial]\<rparr> = (Throws m, st')"
      "processIssue w job t = catchBlock w job (Some ts) m st'"
proof (cases "postMessage w P_Initial")
  case (Throws m)
  then have "processIssue w job t =
      catchBlock w job None m \<lparr>trk = t, calls = [AddReaction ''eyes'', PostMessage P_Initial]\<rparr>"
    by (simp add: processIssue_def)
  with Throws show ?thesis by (rule no_status)
next
  case (Returns ts)
  define p where "p = (if isFollowUp job = Some True \<and> threadContext job \<noteq> None
                         then prUrl (the (threadContext job)) else None)"
  define n where "n = (if isFollowUp job = Some True \<and> threadContext job \<noteq> None
                         then prNumber (the (threadContext job)) else None)"
  define x where "x = step1_5 w job (reusedBranch job) p n
                        \<lparr>trk = t, calls = [AddReaction ''eyes'', PostMessage P_Initial]\<rparr>"
  have pi: "processIssue w job t =
      (case x of (Returns result, st') \<Rightarrow> (Returns result, st')
               | (Throws m, st') \<Rightarrow> catchBlock w job (Some ts) m st')"
    using Returns by (simp add: processIssue_def x_def reusedBranch_def p_def n_def Let_def)
  show ?thesis
  proof (cases x)
    case (Pair res st')
    show ?thesis
    proof (cases res)
      case r: (Returns r)
      with Pair pi have "processIssue w job t = (Returns r, st')" by simp
      with Returns Pair r show ?thesis using returned [of ts p n r st'] by (simp add: x_def)
    next
      case th: (Throws m)
      with Pair pi have "processIssue w job t = catchBlock w job (Some ts) m st'" by simp
      with Returns Pair th show ?thesis using caught [of ts p n m st'] by (simp add: x_def)
    qed
  qed
qed

lemma noChangesPre_start:
  "noChangesPre t \<lparr>trk = t, calls = [AddReaction ''eyes'', PostMessage P_Initial]\<rparr>"
  by (simp add: noChangesPre_def)

lemma branchPre_start:
  "branchPre t reuse branch \<lparr>trk = t, calls = [AddReaction ''eyes'', PostMessage P_Initial]\<rparr>"
  by (simp add: branchPre_def)

lemma catchBlock_branchPost:
  "branchPre t0 reuse branch st \<Longrightarrow> branchPost job t0 reuse branch files (catchBlock w job ts m st)"
  by (simp add: catchBlock_def branchPost_def branchPre_def aux_defs split: outcome.split)

lemma processIssue_branchPost:
  "branchPost job t (truthy (branchAfterCheckout w job (reusedBranch job)))
     (branchAtStep5 w (branchAfterCheckout w job (reusedBranch job))) (filesOf w)
     (processIssue w job t)"
proof (cases rule: processIssue_cases [of w job t])
  case (no_status m)
  show ?thesis unfolding no_status(2) by (rule catchBlock_branchPost [OF branchPre_start])
next
  case (returned ts p n r st')
  show ?thesis unfolding returned(3)
    using branchPost_step1_5 [OF branchPre_start, of job t w "reusedBranch job" p n]
    by (simp add: returned(2))
next
  case (caught ts p n m st')
  have "branchPost job t (truthy (branchAfterCheckout w job (reusedBranch job)))
     (branchAtStep5 w (branchAfterCheckout w job (reusedBranch job))) (filesOf w) (Throws m, st')"
    using branchPost_step1_5 [OF branchPre_start, of job t w "reusedBranch job" p n]
    by (simp add: caught(2))
  then have "branchPre t (truthy (branchAfterCheckout w job (reusedBranch job)))
     (branchAtStep5 w (branchAfterCheckout w job (reusedBranch job))) st'"
    by (simp add: branchPost_def branchPre_def)
  then show ?thesis unfolding caught(3) by (rule catchBlock_branchPost)
qed

text \<open>The context that a run stores, and when.\<close>

lemma processIssue_stores:
  assumes "fst (processIssue w job t) = Returns r"
  shows "(res_deployment r \<noteq> None \<longrightarrow>
            (\<exists>pu pn. threadContextMap (trk (snd (processIssue w job t))) =
               (threadContextMap t)(threadTs job \<mapsto>
                  storedContext job (branchAtStep5 w (branchAfterCheckout w job (reusedBranch job)))
                    pu pn (filesOf w)))) \<and>
         (res_deployment r = None \<longrightarrow>
            threadContextMap (trk (snd (processIssue w job t))) = threadContextMap t)"
  using processIssue_branchPost [of job t w] assms
  by (auto simp add: branchPost_def)

lemma allFilesChanged_union:
  "set (allFilesChanged (Some c) files) = set (filesChanged c) \<union> set files"
  "distinct (allFilesChanged (Some c) files)"
  by (simp_all add: allFilesChanged_def spreadSet_set spreadSet_distinct)

lemmas step_defs = step1_5_def step2_def step2_5_def step3_def runAgent_def step4_def step5_def
  step6_def step7_def step8_def step9_def step10_def catchBlock_def processIssue_def

section \<open>Properties of the pipeline\<close>

text \<open>
  A run in which the commit and the push succeed and the creation of the pull request
  returns a failure.
\<close>

lemma processIssue_world_pr_fails:
  "processIssue world_pr_fails job_top tracking_busy =
     (Returns \<lparr>res_jobId = ''1700.1'', res_status = completed,
              res_branchName = Some ''fix/login-bug'', res_prUrl = None, res_previewUrl = None,
              res_result = None, res_deployment = None,
              res_error = Some ''Validation Failed''\<rparr>,
      \<lparr>trk = tracking_busy,
       calls = [AddReaction ''eyes'', PostMessage P_Initial, UpdateSlackStatus, InitializeRepo,
                AnalyzeAndFix, GetStatus, UpdateMessage U_CreatingBranch,
                CreateBranch (determineBranchType ''Fix the login bug'') ''Fix the login bug'',
                UpdateMessage U_Committing, CommitChanges [''src/login.ts''],
                UpdateMessage U_Pushing, PushBranch ''fix/login-bug'',
                UpdateMessage U_CreatingPR, CreatePullRequest ''fix/login-bug'',
                UpdateMessage U_PRFailed]\<rparr>)"
  by (simp add: step_defs aux_defs world_pr_fails_def world_ok_def job_top_def)

text \<open>
  C1.  The claim fails at the creation of the pull request.  With the collaborators of
  \<open>world_pr_fails\<close> the commit and the push succeed and the creation of the pull request
  returns a failure.  \<open>processIssue\<close> then returns a result with status \<open>completed\<close>, not
  \<open>failed\<close>, and leaves the thread tracking as it was: it calls neither
  \<open>clearActiveThread\<close> nor \<open>markThreadCompleted\<close>, as every other exit does.  The thread
  key is still in the active set and not in the completed set.
\<close>

theorem pr_creation_failure_returns_completed_keeps_thread_active:
  "commitChanges world_pr_fails =
     Returns \<lparr>gc_success = True, gc_hash = Some ''abc1234'', gc_error = None\<rparr> \<and>
   pushBranch world_pr_fails = Returns True \<and>
   createPullRequest world_pr_fails =
     Returns \<lparr>pr_success = False, pr_prNumber = None, pr_prUrl = None,
              pr_error = Some ''Validation Failed''\<rparr> \<and>
   threadTs job_top = ''1700.1'' \<and>
   fst (processIssue world_pr_fails job_top tracking_busy) =
     Returns \<lparr>res_jobId = ''1700.1'', res_status = completed,
              res_branchName = Some ''fix/login-bug'', res_prUrl = None, res_previewUrl = None,
              res_result = None, res_deployment = None,
              res_error = Some ''Validation Failed''\<rparr> \<and>
   trk (snd (processIssue world_pr_fails job_top tracking_busy)) = tracking_busy \<and>
   ''1700.1'' \<in> activeThreads (trk (snd (processIssue world_pr_fails job_top tracking_busy))) \<and>
   ''1700.1'' \<notin> completedThreads (trk (snd (processIssue world_pr_fails job_top tracking_busy)))"
  unfolding processIssue_world_pr_fails
  by (simp add: world_pr_fails_def world_ok_def job_top_def tracking_busy_def)

text \<open>
  A later reply in that thread is not enqueued, and the thread tracking stays as it is.
\<close>

lemma pr_creation_failure_drops_later_reply:
  "threadKey ev_reply = ''1700.1'' \<and>
   slackEvents ''C1'' (\<lambda>t. []) ev_reply
     (trk (snd (processIssue world_pr_fails job_top tracking_busy))) = (tracking_busy, None)"
  unfolding processIssue_world_pr_fails
  by (simp add: tracking_busy_def slackEvents_def ev_reply_def isThreadReply_def threadKey_def)

text \<open>
  The stages before the creation of the pull request, for every job.  If a run invokes
  the CLI check, the agent, the creation of the branch, the commit or the push and the
  operation returns a non-success result, then the thread key is not in the active set
  afterwards, and \<open>processIssue\<close> returns a result with status \<open>failed\<close>, or throws,
  which it does only when neither the report on the status message nor the fallback
  message can be delivered.  Every \<open>failed\<close> result and every exception leaves the thread
  key outside the active set.  If the creation of the pull request returns a non-success
  result and the notice of that is delivered, the result has status \<open>completed\<close> and
  carries the branch and the error.
\<close>

lemma failed_stage_fails_job_and_releases_thread:
  "((\<exists>c \<in> set (calls (snd (processIssue w job t))). stageFailed w c) \<longrightarrow>
      threadTs job \<notin> activeThreads (trk (snd (processIssue w job t))) \<and>
      (case fst (processIssue w job t) of
         Returns r \<Rightarrow> res_status r = failed
       | Throws m \<Rightarrow> (\<exists>m1. updateMessage w U_SystemError = Throws m1) \<and>
                     postMessage w P_CriticalError = Throws m)) \<and>
   (case fst (processIssue w job t) of
      Returns r \<Rightarrow>
        res_status r = failed \<longrightarrow>
        threadTs job \<notin> activeThreads (trk (snd (processIssue w job t)))
    | Throws m \<Rightarrow> threadTs job \<notin> activeThreads (trk (snd (processIssue w job t)))) \<and>
   ((\<exists>c \<in> set (calls (snd (processIssue w job t))). prCreationFailed w c) \<and>
    updateMessage w U_PRFailed = Returns () \<longrightarrow>
      (\<exists>r b. fst (processIssue w job t) = Returns r \<and> res_status r = completed \<and>
             res_error r = prError w \<and> res_branchName r = Some b \<and>
             CreatePullRequest b \<in> set (calls (snd (processIssue w job t)))))"
proof (cases rule: processIssue_cases [of w job t])
  case (no_status m)
  show ?thesis
    unfolding no_status(2)
    using catchBlock_releases [of job w None m] catchBlock_result [of w job None m]
    by (simp add: catchBlock_calls list_ex_iff [symmetric] split: outcome.split)
next
  case (returned ts p n r st')
  have "tryBlockPost w job (Returns r, st')"
    using tryBlockPost_start [of w job "reusedBranch job" p n t] by (simp add: returned(2))
  then show ?thesis
    unfolding returned(3)
    by (auto simp add: tryBlockPost_def list_ex_iff split: outcome.splits)
next
  case (caught ts p n m st')
  have "tryBlockPost w job (Throws m, st')"
    using tryBlockPost_start [of w job "reusedBranch job" p n t] by (simp add: caught(2))
  then have "\<not> (list_ex (prCreationFailed w) (calls st') \<and> updateMessage w U_PRFailed = Returns ())"
    by (auto simp add: tryBlockPost_def split: outcome.splits)
  then show ?thesis
    unfolding caught(3)
    using catchBlock_releases [of job w "Some ts" m st'] catchBlock_result [of w job "Some ts" m st']
    by (auto simp add: catchBlock_calls list_ex_iff [symmetric] split: outcome.split)
qed

lemma processIssue_world_push_fails:
  "processIssue world_push_fails job_top tracking_busy =
     (Returns (failedResult job_top (Some ''Failed to push to remote'')),
      \<lparr>trk = tracking_busy\<lparr>activeThreads := {}\<rparr>,
       calls = [AddReaction ''eyes'', PostMessage P_Initial, UpdateSlackStatus, InitializeRepo,
                AnalyzeAndFix, GetStatus, UpdateMessage U_CreatingBranch,
                CreateBranch (determineBranchType ''Fix the login bug'') ''Fix the login bug'',
                UpdateMessage U_Committing, CommitChanges [''src/login.ts''],
                UpdateMessage U_Pushing, PushBranch ''fix/login-bug'',
                UpdateMessage U_PushFailed]\<rparr>)"
  by (simp add: step_defs aux_defs world_push_fails_def world_ok_def job_top_def tracking_busy_def)

text \<open>A push that fails: the job fails and the thread is released.\<close>

lemma failed_stage_witness:
  "pushBranch world_push_fails = Returns False \<and>
   PushBranch ''fix/login-bug'' \<in> set (calls (snd (processIssue world_push_fails job_top tracking_busy))) \<and>
   threadTs job_top \<in> activeThreads tracking_busy \<and>
   threadTs job_top \<notin> activeThreads (trk (snd (processIssue world_push_fails job_top tracking_busy))) \<and>
   fst (processIssue world_push_fails job_top tracking_busy) =
     Returns (failedResult job_top (Some ''Failed to push to remote'')) \<and>
   res_status (failedResult job_top (Some ''Failed to push to remote'')) = failed \<and>
   (\<exists>r b. fst (processIssue world_pr_fails job_top tracking_busy) = Returns r \<and>
          res_status r = completed \<and> res_error r = Some ''Validation Failed'' \<and>
          res_branchName r = Some b)"
proof -
  have 1: "\<exists>c \<in> set (calls (snd (processIssue world_push_fails job_top tracking_busy))).
             stageFailed world_push_fails c"
    by (simp add: processIssue_world_push_fails) (simp add: world_push_fails_def)
  have 2: "(\<exists>c \<in> set (calls (snd (processIssue world_pr_fails job_top tracking_busy))).
             prCreationFailed world_pr_fails c) \<and>
           updateMessage world_pr_fails U_PRFailed = Returns ()"
    by (simp add: step_defs aux_defs world_pr_fails_def world_ok_def job_top_def tracking_busy_def)
  have 3: "prError world_pr_fails = Some ''Validation Failed''"
    by (simp add: prError_def world_pr_fails_def world_ok_def)
  from failed_stage_fails_job_and_releases_thread [of world_push_fails job_top tracking_busy] 1
  have a: "threadTs job_top \<notin> activeThreads (trk (snd (processIssue world_push_fails job_top tracking_busy)))"
    by blast
  from failed_stage_fails_job_and_releases_thread [of world_pr_fails job_top tracking_busy] 2 3
  have b: "\<exists>r b. fst (processIssue world_pr_fails job_top tracking_busy) = Returns r \<and>
          res_status r = completed \<and> res_error r = Some ''Validation Failed'' \<and>
          res_branchName r = Some b"
    by (simp only:) blast
  show ?thesis
    using a b
    by (simp add: processIssue_world_push_fails)
       (simp add: world_push_fails_def failedResult_def job_top_def tracking_busy_def)
qed

text \<open>
  C9.  The claim fails when the notice of no changes cannot be delivered.  With the
  collaborators of \<open>world_no_changes_slack_down\<close> the agent reports success, the working
  tree has no changes and the update of the status message with the notice is rejected.
  The rejection is an exception in the \<open>try\<close> block, where the helper
  \<open>updateSlackStatus\<close> and the \<open>onProgress\<close> callback catch it: \<open>processIssue\<close> returns a
  result with status \<open>failed\<close>, the thread is not marked completed, and the queue runs the
  job, and with it the agent, three times.
\<close>

theorem no_changes_report_failure_fails_job:
  "analyzeAndFix world_no_changes_slack_down =
     Returns \<lparr>ag_success = True, ag_analysis = ''Fixed the login handler'',
              ag_filesModified = [''src/login.ts''], ag_commandsRun = [], ag_error = None\<rparr> \<and>
   getStatus world_no_changes_slack_down =
     Returns \<lparr>modified = [], created = [], not_added = []\<rparr> \<and>
   updateMessage world_no_changes_slack_down U_NoChanges =
     Throws ''Slack API error: ratelimited'' \<and>
   GetStatus \<in> set (calls (snd (processIssue world_no_changes_slack_down job_top tracking_busy))) \<and>
   fst (processIssue world_no_changes_slack_down job_top tracking_busy) =
     Returns \<lparr>res_jobId = ''1700.1'', res_status = failed, res_branchName = None,
              res_prUrl = None, res_previewUrl = None, res_result = None,
              res_deployment = None, res_error = Some ''Slack API error: ratelimited''\<rparr> \<and>
   ''1700.1''
     \<notin> completedThreads (trk (snd (processIssue world_no_changes_slack_down job_top tracking_busy))) \<and>
   map retryCount
     (snd (processLoop (processIssueHandler world_no_changes_slack_down) [job_top]
             tracking_busy [])) = [Some 0, Some 1, Some 2]"
proof -
  have p: "\<And>n t. processIssue world_no_changes_slack_down (job_top\<lparr>retryCount := n\<rparr>) t =
     (Returns \<lparr>res_jobId = ''1700.1'', res_status = failed, res_branchName = None,
              res_prUrl = None, res_previewUrl = None, res_result = None,
              res_deployment = None, res_error = Some ''Slack API error: ratelimited''\<rparr>,
      \<lparr>trk = clearActiveThread ''1700.1'' t,
       calls = [AddReaction ''eyes'', PostMessage P_Initial, UpdateSlackStatus, InitializeRepo,
                AnalyzeAndFix, GetStatus, UpdateMessage U_NoChanges,
                UpdateMessage U_SystemError]\<rparr>)"
    by (simp add: step_defs aux_defs world_no_changes_slack_down_def world_no_changes_def
          world_ok_def job_top_def)
  have j: "job_top = job_top\<lparr>retryCount := Some 0\<rparr>" by (simp add: job_top_def)
  have q: "processIssue world_no_changes_slack_down job_top tracking_busy =
     (Returns \<lparr>res_jobId = ''1700.1'', res_status = failed, res_branchName = None,
              res_prUrl = None, res_previewUrl = None, res_result = None,
              res_deployment = None, res_error = Some ''Slack API error: ratelimited''\<rparr>,
      \<lparr>trk = clearActiveThread ''1700.1'' tracking_busy,
       calls = [AddReaction ''eyes'', PostMessage P_Initial, UpdateSlackStatus, InitializeRepo,
                AnalyzeAndFix, GetStatus, UpdateMessage U_NoChanges,
                UpdateMessage U_SystemError]\<rparr>)"
    using p [of "Some 0" tracking_busy] j by simp
  have l: "snd (processLoop (processIssueHandler world_no_changes_slack_down)
                  [job_top\<lparr>retryCount := Some 0\<rparr>] tracking_busy []) =
           [job_top\<lparr>retryCount := Some 0\<rparr>, job_top\<lparr>retryCount := Some 1\<rparr>,
            job_top\<lparr>retryCount := Some 2\<rparr>]"
    by (simp add: processIssueHandler_def p maxRetries_def retryCountOr0_def)
  show ?thesis
    using l unfolding j [symmetric] q
    by (simp add: world_no_changes_slack_down_def world_no_changes_def world_ok_def
          clearActiveThread_def tracking_busy_def job_top_def)
qed

text \<open>
  The short circuit, for every job.  If the agent reports success and the working tree
  has no modified, created or untracked file, then the run invokes none of branch
  creation, commit, push and pull-request creation; and if the run reads the status of
  the working tree and the notice of no changes is delivered, \<open>processIssue\<close> returns a
  result with status \<open>completed\<close> and an empty \<open>filesChanged\<close>, and marks the thread
  completed.
\<close>

lemma no_changes_short_circuit:
  assumes "analyzeAndFix w = Returns a" "ag_success a" "getStatus w = Returns g"
    "modified g = []" "created g = []" "not_added g = []"
  shows "(\<forall>c \<in> set (calls (snd (processIssue w job t))). \<not> isRepoMutation c) \<and>
         (GetStatus \<in> set (calls (snd (processIssue w job t))) \<and>
          updateMessage w U_NoChanges = Returns () \<longrightarrow>
            fst (processIssue w job t) = Returns (noChangesResult job a) \<and>
            res_status (noChangesResult job a) = completed \<and>
            map_option fr_filesChanged (res_result (noChangesResult job a)) = Some [] \<and>
            trk (snd (processIssue w job t)) = markThreadCompleted (threadTs job) None t)"
proof (cases rule: processIssue_cases [of w job t])
  case (no_status m)
  show ?thesis unfolding no_status(2)
    by (simp add: catchBlock_def aux_defs split: outcome.split)
next
  case (returned ts p n r st')
  have "noChangesPost w job a t
          (step1_5 w job (reusedBranch job) p n
             \<lparr>trk = t, calls = [AddReaction ''eyes'', PostMessage P_Initial]\<rparr>)"
    by (rule noChangesPost_step1_5 [OF assms noChangesPre_start])
  then show ?thesis unfolding returned(3) returned(2)
    by (auto simp add: noChangesPost_def noChangesResult_def list_all_iff list_ex_iff
          split: if_splits)
next
  case (caught ts p n m st')
  have "noChangesPost w job a t
          (step1_5 w job (reusedBranch job) p n
             \<lparr>trk = t, calls = [AddReaction ''eyes'', PostMessage P_Initial]\<rparr>)"
    by (rule noChangesPost_step1_5 [OF assms noChangesPre_start])
  then have post: "list_all (\<lambda>c. \<not> isRepoMutation c) (calls st')"
     "list_ex (\<lambda>c. c = GetStatus) (calls st') \<Longrightarrow> updateMessage w U_NoChanges \<noteq> Returns ()"
    unfolding caught(2) by (auto simp add: noChangesPost_def split: if_splits)
  have 1: "list_all (\<lambda>c. \<not> isRepoMutation c) (calls (snd (catchBlock w job (Some ts) m st')))"
    using post(1) by (simp add: catchBlock_calls_all)
  have 2: "list_ex (\<lambda>c. c = GetStatus) (calls (snd (catchBlock w job (Some ts) m st'))) =
             list_ex (\<lambda>c. c = GetStatus) (calls st')"
    by (simp add: catchBlock_calls_ex)
  show ?thesis unfolding caught(3) using 1 2 post(2)
    by (auto simp add: list_all_iff list_ex_iff)
qed

text \<open>The short circuit with a notice that is delivered.\<close>

lemma no_changes_short_circuit_witness:
  "GetStatus \<in> set (calls (snd (processIssue world_no_changes job_top tracking_busy))) \<and>
   updateMessage world_no_changes U_NoChanges = Returns () \<and>
   fst (processIssue world_no_changes job_top tracking_busy) =
     Returns \<lparr>res_jobId = ''1700.1'', res_status = completed, res_branchName = None,
              res_prUrl = None, res_previewUrl = None,
              res_result = Some \<lparr>fr_success = True, fr_analysis = ''Fixed the login handler'',
                                 fr_solution = ''No changes made'', fr_filesChanged = [],
                                 fr_fixes = []\<rparr>,
              res_deployment = None, res_error = None\<rparr> \<and>
   list_all (\<lambda>c. \<not> isRepoMutation c) (calls (snd (processIssue world_no_changes job_top tracking_busy))) \<and>
   ''1700.1'' \<in> completedThreads (trk (snd (processIssue world_no_changes job_top tracking_busy))) \<and>
   ''1700.1'' \<notin> activeThreads (trk (snd (processIssue world_no_changes job_top tracking_busy)))"
proof -
  define a where "a = \<lparr>ag_success = True, ag_analysis = ''Fixed the login handler'',
              ag_filesModified = [''src/login.ts''], ag_commandsRun = [], ag_error = None\<rparr>"
  define g where "g = \<lparr>modified = [], created = [], not_added = ([] :: string list)\<rparr>"
  have h: "analyzeAndFix world_no_changes = Returns a" "ag_success a"
      "getStatus world_no_changes = Returns g" "modified g = []" "created g = []" "not_added g = []"
      "updateMessage world_no_changes U_NoChanges = Returns ()"
    by (simp_all add: world_no_changes_def world_ok_def a_def g_def)
  have i: "GetStatus \<in> set (calls (snd (processIssue world_no_changes job_top tracking_busy)))"
    by (simp add: step_defs aux_defs world_no_changes_def world_ok_def job_top_def tracking_busy_def)
  from no_changes_short_circuit [OF h(1-6), of job_top tracking_busy] i h(7)
  have "(\<forall>c \<in> set (calls (snd (processIssue world_no_changes job_top tracking_busy))). \<not> isRepoMutation c)"
    and "fst (processIssue world_no_changes job_top tracking_busy) = Returns (noChangesResult job_top a)"
    and "trk (snd (processIssue world_no_changes job_top tracking_busy)) =
           markThreadCompleted (threadTs job_top) None tracking_busy"
    by blast+
  then show ?thesis using i h(7)
    by (simp add: list_all_iff noChangesResult_def a_def job_top_def markThreadCompleted_def
          tracking_busy_def)
qed

text \<open>
  C8, as the claim states it, fails when the thread's branch cannot be checked out.  The
  job \<open>job_followup\<close> is a follow-up that carries the context with branch \<open>fix/x\<close> and
  files \<open>["a.ts"]\<close>; with the collaborators of \<open>world_checkout_fails\<close> the run creates a
  new branch and continues on it.
\<close>

theorem followup_checkout_failure_creates_branch:
  "isFollowUp job_followup = Some True \<and>
   map_option branchName (threadContext job_followup) = Some ''fix/x'' \<and>
   map_option filesChanged (threadContext job_followup) = Some [''a.ts''] \<and>
   CreateBranch B_chore ''also rename the button''
     \<in> set (calls (snd (processIssue world_checkout_fails job_followup tracking_followup))) \<and>
   PushBranch ''chore/also-rename-button''
     \<in> set (calls (snd (processIssue world_checkout_fails job_followup tracking_followup))) \<and>
   map_option branchName
     (threadContextMap (trk (snd (processIssue world_checkout_fails job_followup tracking_followup)))
        ''1700.1'') = Some ''chore/also-rename-button''"
proof -
  have t: "toLowerCase ''also rename the button'' = ''also rename the button''"
    by code_simp
  have d: "determineBranchType ''also rename the button'' = B_chore"
    unfolding determineBranchType_def t by (simp add: Let_def)
  show ?thesis
    by (simp add: step_defs aux_defs world_checkout_fails_def world_ok_def job_followup_def
          job_reply_def context_x_def tracking_followup_def d allFilesChanged_def
          originalIssueTextOr_def)
qed

text \<open>
  C8, amended.  For a follow-up job that carries a context with a non-empty branch name:
  if the checkout of that branch succeeds, the run does not invoke \<open>createBranch\<close> and
  pushes no other branch; and whenever the run completes with a deployment result, the
  context it stores for the thread has that branch (the one step 5 goes on with, if the
  checkout failed) and, for \<open>filesChanged\<close>, the union of the files of the carried context
  and the files changed in this run, each once, in the order of first occurrence.
\<close>

theorem followup_reuses_branch_and_merges_files:
  assumes fu: "isFollowUp job = Some True" and ctx: "threadContext job = Some c"
    and name: "branchName c \<noteq> []"
  shows "(checkoutExistingBranch w = Returns co \<and> gb_success co \<longrightarrow>
            (\<forall>ty d. CreateBranch ty d \<notin> set (calls (snd (processIssue w job t)))) \<and>
            (\<forall>b. PushBranch b \<in> set (calls (snd (processIssue w job t))) \<longrightarrow> b = branchName c) \<and>
            branchAtStep5 w (branchAfterCheckout w job (reusedBranch job)) = branchName c) \<and>
         (fst (processIssue w job t) = Returns r \<and> res_deployment r \<noteq> None \<longrightarrow>
            (\<exists>stored. threadContextMap (trk (snd (processIssue w job t))) (threadTs job) = Some stored \<and>
               branchName stored = branchAtStep5 w (branchAfterCheckout w job (reusedBranch job)) \<and>
               filesChanged stored = spreadSet [] (filesChanged c @ filesOf w) \<and>
               set (filesChanged stored) = set (filesChanged c) \<union> set (filesOf w) \<and>
               distinct (filesChanged stored)))"
proof (intro conjI impI)
  have rb: "reusedBranch job = Some (branchName c)"
    using fu ctx by (simp add: reusedBranch_def)
  note post = processIssue_branchPost [of job t w]
  {
    assume co: "checkoutExistingBranch w = Returns co \<and> gb_success co"
    have ab: "branchAfterCheckout w job (reusedBranch job) = Some (branchName c)"
      using fu name co by (simp add: rb branchAfterCheckout_def)
    show b5: "branchAtStep5 w (branchAfterCheckout w job (reusedBranch job)) = branchName c"
      using name by (simp add: ab branchAtStep5_def)
    have all: "list_all (onBranch True (branchName c)) (calls (snd (processIssue w job t)))"
      using post name unfolding b5 by (simp add: ab branchPost_def)
    show "\<forall>ty d. CreateBranch ty d \<notin> set (calls (snd (processIssue w job t)))"
      using all by (auto simp add: list_all_iff)
    show "\<forall>b. PushBranch b \<in> set (calls (snd (processIssue w job t))) \<longrightarrow> b = branchName c"
      using all by (auto simp add: list_all_iff)
  }
  {
    assume r: "fst (processIssue w job t) = Returns r \<and> res_deployment r \<noteq> None"
    then obtain pu pn where
      m: "threadContextMap (trk (snd (processIssue w job t))) =
            (threadContextMap t)(threadTs job \<mapsto>
               storedContext job (branchAtStep5 w (branchAfterCheckout w job (reusedBranch job)))
                 pu pn (filesOf w))"
      using processIssue_stores [of w job t r] by blast
    show "\<exists>stored. threadContextMap (trk (snd (processIssue w job t))) (threadTs job) = Some stored \<and>
               branchName stored = branchAtStep5 w (branchAfterCheckout w job (reusedBranch job)) \<and>
               filesChanged stored = spreadSet [] (filesChanged c @ filesOf w) \<and>
               set (filesChanged stored) = set (filesChanged c) \<union> set (filesOf w) \<and>
               distinct (filesChanged stored)"
      unfolding m using ctx
      by (simp add: storedContext_def allFilesChanged_def spreadSet_set spreadSet_distinct)
  }
qed

lemma processIssue_world_ok_followup:
  "processIssue world_ok job_followup tracking_followup =
     (Returns \<lparr>res_jobId = ''1700.2'', res_status = completed, res_branchName = Some ''fix/x'',
               res_prUrl = Some ''https://github.com/o/r/pull/7'',
               res_previewUrl = Some ''https://preview.example.com'', res_result = None,
               res_deployment =
                 Some \<lparr>dep_success = True, dep_url = Some ''https://preview.example.com'',
                       dep_status = Some ''READY'', dep_error = None\<rparr>,
               res_error = None\<rparr>,
      \<lparr>trk = tracking_followup
               \<lparr>activeThreads := {},
                threadContextMap :=
                  [''1700.1'' \<mapsto> context_x\<lparr>filesChanged := [''a.ts'', ''src/login.ts'']\<rparr>]\<rparr>,
       calls = [AddReaction ''eyes'', PostMessage P_Initial, UpdateSlackStatus, InitializeRepo,
                UpdateSlackStatus, CheckoutExistingBranch ''fix/x'', AnalyzeAndFix, GetStatus,
                UpdateMessage U_PreparingCommit, UpdateMessage U_Committing,
                CommitChanges [''src/login.ts''], UpdateMessage U_Pushing, PushBranch ''fix/x'',
                UpdateMessage U_ExistingPR, UpdateMessage U_Deploying, WaitForDeployment ''fix/x'',
                UpdateMessage U_Success, AddReaction ''white_check_mark'']\<rparr>)"
  by (simp add: step_defs aux_defs world_ok_def job_followup_def job_reply_def context_x_def
        tracking_followup_def allFilesChanged_def originalIssueTextOr_def)

theorem followup_reuses_branch_witness:
  "isFollowUp job_followup = Some True \<and> threadContext job_followup = Some context_x \<and>
   branchName context_x = ''fix/x'' \<and> filesChanged context_x = [''a.ts''] \<and>
   filesOf world_ok = [''src/login.ts''] \<and>
   list_all (\<lambda>c. c \<noteq> CreateBranch B_chore ''also rename the button'')
     (calls (snd (processIssue world_ok job_followup tracking_followup))) \<and>
   PushBranch ''fix/x'' \<in> set (calls (snd (processIssue world_ok job_followup tracking_followup))) \<and>
   map_option branchName
     (threadContextMap (trk (snd (processIssue world_ok job_followup tracking_followup))) ''1700.1'')
     = Some ''fix/x'' \<and>
   map_option filesChanged
     (threadContextMap (trk (snd (processIssue world_ok job_followup tracking_followup))) ''1700.1'')
     = Some [''a.ts'', ''src/login.ts'']"
proof -
  have h: "isFollowUp job_followup = Some True" "threadContext job_followup = Some context_x"
      "branchName context_x \<noteq> []"
    by (simp_all add: job_followup_def job_reply_def context_x_def)
  have co: "checkoutExistingBranch world_ok =
              Returns \<lparr>gb_success = True, gb_branchName = Some ''fix/x'', gb_error = None\<rparr> \<and>
            gb_success \<lparr>gb_success = True, gb_branchName = Some ''fix/x'', gb_error = None\<rparr>"
    by (simp add: world_ok_def)
  have f: "filesOf world_ok = [''src/login.ts'']"
    by (simp add: filesOf_def world_ok_def)
  note t = followup_reuses_branch_and_merges_files
             [OF h, where w = world_ok and t = tracking_followup]
  from t co have 1: "\<forall>ty d. CreateBranch ty d \<notin> set (calls (snd (processIssue world_ok job_followup tracking_followup)))"
    by blast
  from t co have 2: "branchAtStep5 world_ok (branchAfterCheckout world_ok job_followup (reusedBranch job_followup)) = branchName context_x"
    by blast
  have r: "fst (processIssue world_ok job_followup tracking_followup) =
             Returns (case fst (processIssue world_ok job_followup tracking_followup) of Returns r \<Rightarrow> r) \<and>
           res_deployment (case fst (processIssue world_ok job_followup tracking_followup) of Returns r \<Rightarrow> r) \<noteq> None"
    by (simp add: processIssue_world_ok_followup)
  from t r obtain stored where
    3: "threadContextMap (trk (snd (processIssue world_ok job_followup tracking_followup))) (threadTs job_followup) = Some stored"
       "branchName stored = branchAtStep5 world_ok (branchAfterCheckout world_ok job_followup (reusedBranch job_followup))"
       "filesChanged stored = spreadSet [] (filesChanged context_x @ filesOf world_ok)"
    by blast
  have k: "threadTs job_followup = ''1700.1''"
    by (simp add: job_followup_def job_reply_def)
  have s: "spreadSet [] (filesChanged context_x @ filesOf world_ok) = [''a.ts'', ''src/login.ts'']"
    by (simp add: f context_x_def)
  have p: "PushBranch ''fix/x'' \<in> set (calls (snd (processIssue world_ok job_followup tracking_followup)))"
    by (simp add: processIssue_world_ok_followup)
  show ?thesis
    using h(1,2) f 1 2 3 p unfolding k s
    by (auto simp add: list_all_iff context_x_def)
qed

text \<open>
  C7, as the claim states it, fails: \<open>markThreadCompleted\<close> puts the given context in
  the place of the stored one.  After a context with \<open>["a.ts"]\<close> and then one with
  \<open>["b.ts"]\<close> are stored for a thread, the stored \<open>filesChanged\<close> is \<open>["b.ts"]\<close>.
\<close>

theorem markThreadCompleted_overwrites_context:
  "filesChanged context_x = [''a.ts''] \<and> filesChanged context_b = [''b.ts''] \<and>
   map_option filesChanged
     (getThreadContext ''1700.1''
        (markThreadCompleted ''1700.1'' (Some context_x) initial_tracking)) = Some [''a.ts''] \<and>
   map_option filesChanged
     (getThreadContext ''1700.1''
        (markThreadCompleted ''1700.1'' (Some context_b)
           (markThreadCompleted ''1700.1'' (Some context_x) initial_tracking))) = Some [''b.ts'']"
  by (simp add: markThreadCompleted_def getThreadContext_def initial_tracking_def context_b_def
        context_x_def Let_def)

text \<open>
  C7, amended.  \<open>markThreadCompleted\<close> removes the key from the active set and adds it
  to the completed set; given a context it stores that context for the key in place of
  any stored one, and given none it leaves the stored contexts as they are.  The union
  is taken by \<open>processIssue\<close> before it calls \<open>markThreadCompleted\<close>: the context it
  stores, which it does exactly when it returns a result with a deployment (not when it
  returns another result or throws), has for \<open>filesChanged\<close> the files of the context the
  job carries followed by the files changed in the run that are not yet among them, so
  it contains every file of the carried context.
\<close>

theorem markThreadCompleted_replaces_processIssue_merges:
  "activeThreads (markThreadCompleted ts ctx s) = activeThreads s - {ts} \<and>
   completedThreads (markThreadCompleted ts ctx s) = insert ts (completedThreads s) \<and>
   processedMessages (markThreadCompleted ts ctx s) = processedMessages s \<and>
   threadContextMap (markThreadCompleted ts (Some c) s) = (threadContextMap s)(ts \<mapsto> c) \<and>
   threadContextMap (markThreadCompleted ts None s) = threadContextMap s \<and>
   (fst (processIssue w job t) = Throws m \<longrightarrow>
      threadContextMap (trk (snd (processIssue w job t))) = threadContextMap t) \<and>
   (fst (processIssue w job t) = Returns r \<and> res_deployment r = None \<longrightarrow>
      threadContextMap (trk (snd (processIssue w job t))) = threadContextMap t) \<and>
   (fst (processIssue w job t) = Returns r \<and> res_deployment r \<noteq> None \<longrightarrow>
      (\<exists>stored. threadContextMap (trk (snd (processIssue w job t))) =
                  (threadContextMap t)(threadTs job \<mapsto> stored) \<and>
                filesChanged stored = allFilesChanged (threadContext job) (filesOf w) \<and>
                (\<forall>carried. threadContext job = Some carried \<longrightarrow>
                   filesChanged stored = spreadSet [] (filesChanged carried @ filesOf w) \<and>
                   set (filesChanged carried) \<subseteq> set (filesChanged stored))))"
proof (intro conjI impI)
  show "activeThreads (markThreadCompleted ts ctx s) = activeThreads s - {ts}"
    by (simp add: markThreadCompleted_def Let_def split: option.split)
  show "completedThreads (markThreadCompleted ts ctx s) = insert ts (completedThreads s)"
    by (simp add: markThreadCompleted_def Let_def split: option.split)
  show "processedMessages (markThreadCompleted ts ctx s) = processedMessages s"
    by (simp add: markThreadCompleted_def Let_def split: option.split)
  show "threadContextMap (markThreadCompleted ts (Some c) s) = (threadContextMap s)(ts \<mapsto> c)"
    by (simp add: markThreadCompleted_def Let_def)
  show "threadContextMap (markThreadCompleted ts None s) = threadContextMap s"
    by (simp add: markThreadCompleted_def Let_def)
next
  assume "fst (processIssue w job t) = Throws m"
  then show "threadContextMap (trk (snd (processIssue w job t))) = threadContextMap t"
    using processIssue_branchPost [of job t w] by (simp add: branchPost_def)
next
  assume "fst (processIssue w job t) = Returns r \<and> res_deployment r = None"
  then show "threadContextMap (trk (snd (processIssue w job t))) = threadContextMap t"
    using processIssue_stores [of w job t r] by blast
next
  assume "fst (processIssue w job t) = Returns r \<and> res_deployment r \<noteq> None"
  then obtain pu pn where
    m: "threadContextMap (trk (snd (processIssue w job t))) =
          (threadContextMap t)(threadTs job \<mapsto>
             storedContext job (branchAtStep5 w (branchAfterCheckout w job (reusedBranch job)))
               pu pn (filesOf w))"
    using processIssue_stores [of w job t r] by blast
  let ?stored = "storedContext job
            (branchAtStep5 w (branchAfterCheckout w job (reusedBranch job))) pu pn (filesOf w)"
  have f: "filesChanged ?stored = allFilesChanged (threadContext job) (filesOf w)"
    by (simp add: storedContext_def)
  have u: "\<forall>carried. threadContext job = Some carried \<longrightarrow>
          filesChanged ?stored = spreadSet [] (filesChanged carried @ filesOf w) \<and>
          set (filesChanged carried) \<subseteq> set (filesChanged ?stored)"
    unfolding f by (auto simp add: allFilesChanged_def spreadSet_set)
  from m f u show "\<exists>stored. threadContextMap (trk (snd (processIssue w job t))) =
                  (threadContextMap t)(threadTs job \<mapsto> stored) \<and>
                filesChanged stored = allFilesChanged (threadContext job) (filesOf w) \<and>
                (\<forall>carried. threadContext job = Some carried \<longrightarrow>
                   filesChanged stored = spreadSet [] (filesChanged carried @ filesOf w) \<and>
                   set (filesChanged carried) \<subseteq> set (filesChanged stored))"
    by blast
qed

theorem markThreadCompleted_replaces_witness:
  "threadContext job_followup = Some context_x \<and> filesChanged context_x = [''a.ts''] \<and>
   filesOf world_ok = [''src/login.ts''] \<and>
   map_option filesChanged
     (threadContextMap (trk (snd (processIssue world_ok job_followup tracking_followup))) ''1700.1'')
     = Some [''a.ts'', ''src/login.ts''] \<and>
   threadContextMap (markThreadCompleted ''1700.1'' (Some context_b) tracking_followup) ''1700.1''
     = Some context_b"
proof -
  let ?r = "case fst (processIssue world_ok job_followup tracking_followup) of Returns r \<Rightarrow> r"
  have r: "fst (processIssue world_ok job_followup tracking_followup) = Returns ?r"
      "res_deployment ?r \<noteq> None"
    by (simp_all add: processIssue_world_ok_followup)
  have c: "threadContext job_followup = Some context_x" "threadTs job_followup = ''1700.1''"
    by (simp_all add: job_followup_def job_reply_def)
  have f: "filesOf world_ok = [''src/login.ts'']"
    by (simp add: filesOf_def world_ok_def)
  note t = markThreadCompleted_replaces_processIssue_merges
             [where ts = "''1700.1''" and c = context_b and s = tracking_followup
                and w = world_ok and job = job_followup and t = tracking_followup and r = "?r"]
  from t r obtain stored where
    s: "threadContextMap (trk (snd (processIssue world_ok job_followup tracking_followup))) =
          (threadContextMap tracking_followup)(threadTs job_followup \<mapsto> stored)"
       "\<forall>carried. threadContext job_followup = Some carried \<longrightarrow>
          filesChanged stored = spreadSet [] (filesChanged carried @ filesOf world_ok) \<and>
          set (filesChanged carried) \<subseteq> set (filesChanged stored)"
    by blast
  from s(2) c(1) have "filesChanged stored = spreadSet [] (filesChanged context_x @ filesOf world_ok)"
    by blast
  then have fs: "filesChanged stored = [''a.ts'', ''src/login.ts'']"
    by (simp add: f context_x_def)
  from t have m: "threadContextMap (markThreadCompleted ''1700.1'' (Some context_b) tracking_followup) =
       (threadContextMap tracking_followup)(''1700.1'' \<mapsto> context_b)"
    by blast
  show ?thesis
    using c f fs unfolding s(1) m by (simp add: context_x_def)
qed

section \<open>Properties of the thread tracking\<close>





end
